theory Spec2Isabelle
  imports Complex_Main "HOL-Library.Sublist"
begin

section \<open>JavaScript strings\<close>

text \<open>
  A JavaScript string is a sequence of UTF-16 code units, and \<open>length\<close>, \<open>indexOf\<close>,
  \<open>split\<close> and \<open>trim\<close> all count code units. The model is \<^typ>\<open>string\<close>, one
  \<^typ>\<open>char\<close> per code unit, which covers the code units below 256. The white space of
  \<open>trim()\<close> and of the regular expression class \<open>\s\<close> in that range is TAB, LF, VT, FF,
  CR, SPACE and NBSP.
\<close>

definition is_space :: "char \<Rightarrow> bool" where
  "is_space c \<longleftrightarrow>
     c = CHR 0x09 \<or> c = CHR 0x0A \<or> c = CHR 0x0B \<or> c = CHR 0x0C \<or> c = CHR 0x0D \<or>
     c = CHR 0x20 \<or> c = CHR 0xA0"

text \<open>\<open>String.prototype.trim\<close>: white space is removed at both ends.\<close>

definition trim :: "string \<Rightarrow> string" where
  "trim s = rev (dropWhile is_space (rev (dropWhile is_space s)))"

text \<open>
  \<open>String.prototype.split\<close> with a one-character separator: the pieces between the
  separators, empty pieces included; the empty string gives one empty piece.
\<close>

fun split :: "char \<Rightarrow> string \<Rightarrow> string list" where
  "split d [] = [[]]"
| "split d (c # cs) =
     (if c = d then [] # split d cs
      else (case split d cs of [] \<Rightarrow> [[c]] | piece # pieces \<Rightarrow> (c # piece) # pieces))"

text \<open>\<open>Array.prototype.join\<close>.\<close>

fun join :: "string \<Rightarrow> string list \<Rightarrow> string" where
  "join sep [] = []"
| "join sep [x] = x"
| "join sep (x # y # ys) = x @ sep @ join sep (y # ys)"

text \<open>
  \<open>String.prototype.indexOf(searchString, position)\<close>: the search starts at
  \<open>min (max position 0) length\<close> and returns the least index at or after it where
  \<open>searchString\<close> occurs, \<open>-1\<close> when there is none. An empty \<open>searchString\<close> is found
  at the start position itself, also when that is the length of the string.
\<close>

fun indexOf_scan :: "string \<Rightarrow> string \<Rightarrow> nat \<Rightarrow> int" where
  "indexOf_scan target [] k = (if target = [] then int k else - 1)"
| "indexOf_scan target (c # cs) k =
     (if prefix target (c # cs) then int k else indexOf_scan target cs (Suc k))"

definition indexOf :: "string \<Rightarrow> string \<Rightarrow> int \<Rightarrow> int" where
  "indexOf s target position =
     (let start = nat (min (max position 0) (int (length s)))
      in indexOf_scan target (drop start s) start)"

section \<open>formatMarkdownTable\<close>

text \<open>
  The loop of \<open>formatMarkdownTable\<close> over the lines, with the flag \<open>inTable\<close> and the
  array \<open>formattedLines\<close> as explicit state; the last equation is the closing fence pushed
  after the loop.
\<close>

definition fence :: string where
  "fence = ''```''"

fun formatLines :: "string list \<Rightarrow> bool \<Rightarrow> string list \<Rightarrow> string list" where
  "formatLines [] inTable formattedLines =
     (if inTable then formattedLines @ [fence] else formattedLines)"
| "formatLines (line # lines) inTable formattedLines =
     (if CHR ''|'' \<in> set line then
        (if \<not> inTable then formatLines lines True (formattedLines @ [fence] @ [line])
         else formatLines lines inTable (formattedLines @ [line]))
      else if inTable then formatLines lines False (formattedLines @ [fence] @ [line])
      else formatLines lines inTable (formattedLines @ [line]))"

definition formatMarkdownTable :: "string \<Rightarrow> string" where
  "formatMarkdownTable txt = join ''\<newline>'' (formatLines (split CHR ''\<newline>'' txt) False [])"

section \<open>The markdown table parser of ConvertToTable\<close>

text \<open>
  The separator test is \<open>line.match(/^\|?[\s\-:|]+\|/)\<close>: at the start of the line an
  optional bar, then one or more characters of the class (white space, \<open>-\<close>, \<open>:\<close>,
  \<open>|\<close>), then a bar. The expression is not anchored at the end of the line. The matcher
  below follows the expression piece by piece; a match exists when some way of taking the
  optional bar and some length of the repetition leads to the final bar.
\<close>

definition sep_class :: "char \<Rightarrow> bool" where
  "sep_class c \<longleftrightarrow> is_space c \<or> c = CHR ''-'' \<or> c = CHR '':'' \<or> c = CHR ''|''"

text \<open>After at least one class character: more class characters, then the bar.\<close>

fun match_more_then_bar :: "string \<Rightarrow> bool" where
  "match_more_then_bar [] = False"
| "match_more_then_bar (c # cs) = (c = CHR ''|'' \<or> (sep_class c \<and> match_more_then_bar cs))"

text \<open>\<open>[\s\-:|]+\|\<close>\<close>

fun match_class_plus_bar :: "string \<Rightarrow> bool" where
  "match_class_plus_bar [] = False"
| "match_class_plus_bar (c # cs) = (sep_class c \<and> match_more_then_bar cs)"

text \<open>\<open>^\|?[\s\-:|]+\|\<close>\<close>

fun is_separator :: "string \<Rightarrow> bool" where
  "is_separator [] = False"
| "is_separator (c # cs) =
     ((c = CHR ''|'' \<and> match_class_plus_bar cs) \<or> match_class_plus_bar (c # cs))"

text \<open>\<open>line.split('|').map(cell => cell.trim()).filter(cell => cell !== '')\<close>\<close>

definition parse_cells :: "string \<Rightarrow> string list" where
  "parse_cells line = filter (\<lambda>cell. cell \<noteq> []) (map trim (split CHR ''|'' line))"

text \<open>The loop over the lines, pushing onto \<open>rows\<close>.\<close>

fun parse_rows :: "string list \<Rightarrow> string list list \<Rightarrow> string list list" where
  "parse_rows [] rows = rows"
| "parse_rows (line # lines) rows =
     (if is_separator line then parse_rows lines rows
      else (let cells = parse_cells line
            in if length cells > 0 then parse_rows lines (rows @ [cells])
               else parse_rows lines rows))"

text \<open>\<open>tableText.trim().split('\n')\<close>\<close>

definition table_lines :: "string \<Rightarrow> string list" where
  "table_lines tableText = split CHR ''\<newline>'' (trim tableText)"

definition parse_table :: "string \<Rightarrow> string list list" where
  "parse_table tableText = parse_rows (table_lines tableText) []"

section \<open>Documents, edit requests and the service\<close>

text \<open>
  The part of a Google Docs document that the tools read. An absent (\<open>undefined\<close>) field
  is \<open>None\<close>. \<open>textRun\<close> is \<open>elem.textRun?.content\<close>, \<open>paragraph\<close> is
  \<open>element.paragraph?.elements\<close> and \<open>body_content\<close> is \<open>doc.data.body?.content\<close>.
  Offsets of the document are natural numbers.
\<close>

record paragraph_element =
  startIndex :: "nat option"
  textRun :: "string option"

record structural_element =
  "paragraph" :: "paragraph_element list option"
  endIndex :: "nat option"

record document =
  body_content :: "structural_element list option"

text \<open>The \<open>textStyle\<close> object of an \<open>updateTextStyle\<close> request: a property is present when set.\<close>

datatype text_style = TextStyle (style_bold: "bool option") (style_italic: "bool option")
  (style_underline: "bool option")

text \<open>
  The requests of a batch, with the fields the tools fill in:
  \<open>insertText\<close> (location index, text), \<open>deleteContentRange\<close> (start, end),
  \<open>updateTextStyle\<close> (start, end, text style, field mask),
  \<open>updateParagraphStyle\<close> (start, end, named style type, field mask) and
  \<open>insertTable\<close> (rows, columns, location index).
\<close>

datatype request =
    InsertText int string
  | DeleteContentRange int int
  | UpdateTextStyle int int text_style string
  | UpdateParagraphStyle int int string string
  | InsertTable nat nat int

text \<open>
  The calls a tool makes to the external service, in the order made, and the service's
  answers. A call that throws answers with the thrown error (\<open>Inl\<close> or \<open>Some\<close>).
\<close>

datatype api_call =
    DocumentsCreate string
  | DocumentsGet string
  | DocumentsBatchUpdate string "request list"
  | FilesDelete string

record docs_service =
  documents_create :: "string \<Rightarrow> string + string"
  documents_get :: "string \<Rightarrow> string + document"
  documents_batchUpdate :: "string \<Rightarrow> request list \<Rightarrow> string option"

record drive_service =
  files_delete :: "string \<Rightarrow> string option"

text \<open>The two global handles; \<open>None\<close> until \<open>initClients\<close> has set them.\<close>

record clients =
  docsClient :: "docs_service option"
  driveClient :: "drive_service option"

datatype update_mode = Replace | Append

text \<open>
  What a tool returns: the message of its one text item and the flag \<open>isError\<close> (absent
  counts as false). The messages are, in this order: "Google API not initialized",
  "Error: ..." with the caught error, "Created document ... ID: ...", "Updated document
  ... (mode: ...)", "Deleted document ...", "Applied formatting to document ...",
  "No valid table data found", "Could not find table text in document" and "Converted
  markdown table to Google Docs table (r rows x c columns)".
\<close>

datatype message =
    NotInitialized
  | CaughtError string
  | Created string string
  | Updated string update_mode
  | Deleted string
  | AppliedFormatting string
  | NoValidTableData
  | TableTextNotFound
  | Converted nat nat

datatype tool_result = ToolResult (message: message) (isError: bool)

type_synonym outcome = "tool_result \<times> api_call list"

definition not_initialized :: outcome where
  "not_initialized = (ToolResult NotInitialized True, [])"

text \<open>The \<open>catch\<close> block of every tool, after the calls made so far.\<close>

definition caught :: "string \<Rightarrow> api_call list \<Rightarrow> outcome" where
  "caught err calls = (ToolResult (CaughtError err) True, calls)"

section \<open>CreateDoc, UpdateDoc, DeleteDoc\<close>

definition CreateDoc :: "clients \<Rightarrow> string \<Rightarrow> string option \<Rightarrow> outcome" where
  "CreateDoc cl title content =
     (case docsClient cl of
        None \<Rightarrow> not_initialized
      | Some docs \<Rightarrow>
          (case documents_create docs title of
             Inl err \<Rightarrow> caught err [DocumentsCreate title]
           | Inr documentId \<Rightarrow>
               (if content \<noteq> None \<and> content \<noteq> Some [] then
                  (let formattedContent = formatMarkdownTable (the content);
                       requests = [InsertText 1 formattedContent]
                   in case documents_batchUpdate docs documentId requests of
                        Some err \<Rightarrow>
                          caught err [DocumentsCreate title, DocumentsBatchUpdate documentId requests]
                      | None \<Rightarrow>
                          (ToolResult (Created title documentId) False,
                           [DocumentsCreate title, DocumentsBatchUpdate documentId requests]))
                else (ToolResult (Created title documentId) False, [DocumentsCreate title]))))"

text \<open>\<open>doc.data.body?.content?.slice(-1)[0]?.endIndex || 1\<close>\<close>

definition body_endIndex :: "document \<Rightarrow> int" where
  "body_endIndex doc =
     (case body_content doc of
        None \<Rightarrow> 1
      | Some elements \<Rightarrow>
          (if elements = [] then 1
           else (case endIndex (last elements) of
                   None \<Rightarrow> 1
                 | Some e \<Rightarrow> if e = 0 then 1 else int e)))"

definition update_requests :: "update_mode \<Rightarrow> document \<Rightarrow> string \<Rightarrow> request list" where
  "update_requests mode doc content =
     (if mode = Replace then
        (let endIndex = body_endIndex doc
         in (if endIndex > 1 then [DeleteContentRange 1 (endIndex - 1)] else [])
            @ [InsertText 1 content])
      else
        (let endIndex = body_endIndex doc
         in [InsertText (endIndex - 1) (''\<newline>'' @ content)]))"

definition UpdateDoc :: "clients \<Rightarrow> string \<Rightarrow> string \<Rightarrow> update_mode option \<Rightarrow> outcome" where
  "UpdateDoc cl documentId content mode_arg =
     (let mode = (case mode_arg of None \<Rightarrow> Append | Some m \<Rightarrow> m)
      in case docsClient cl of
           None \<Rightarrow> not_initialized
         | Some docs \<Rightarrow>
             (case documents_get docs documentId of
                Inl err \<Rightarrow> caught err [DocumentsGet documentId]
              | Inr doc \<Rightarrow>
                  (let requests = update_requests mode doc content
                   in case documents_batchUpdate docs documentId requests of
                        Some err \<Rightarrow>
                          caught err [DocumentsGet documentId, DocumentsBatchUpdate documentId requests]
                      | None \<Rightarrow>
                          (ToolResult (Updated documentId mode) False,
                           [DocumentsGet documentId, DocumentsBatchUpdate documentId requests]))))"

definition DeleteDoc :: "clients \<Rightarrow> string \<Rightarrow> outcome" where
  "DeleteDoc cl documentId =
     (case driveClient cl of
        None \<Rightarrow> not_initialized
      | Some drive \<Rightarrow>
          (case files_delete drive documentId of
             Some err \<Rightarrow> caught err [FilesDelete documentId]
           | None \<Rightarrow> (ToolResult (Deleted documentId) False, [FilesDelete documentId])))"

section \<open>FormatDoc\<close>

record format_instruction =
  "text" :: string
  bold :: "bool option"
  italic :: "bool option"
  underline :: "bool option"
  heading :: "rat option"

type_synonym occurrence = "int \<times> int"

text \<open>\<open>elem.startIndex || 0\<close>\<close>

definition elem_start :: "paragraph_element \<Rightarrow> int" where
  "elem_start elem = (case startIndex elem of None \<Rightarrow> 0 | Some n \<Rightarrow> int n)"

text \<open>
  The \<open>while (index !== -1)\<close> loop over one text run. Nothing bounds the loop in the
  source: a run in which \<open>indexOf\<close> never answers \<open>-1\<close> keeps it going, and the result
  is then \<open>None\<close>.
\<close>

partial_function (option) occurrence_loop ::
  "string \<Rightarrow> string \<Rightarrow> int \<Rightarrow> int \<Rightarrow> occurrence list \<Rightarrow> occurrence list option" where
  "occurrence_loop txt target start index occurrences =
     (if index = - 1 then Some occurrences
      else occurrence_loop txt target start (indexOf txt target (index + 1))
             (occurrences @ [(start + index, start + index + int (length target))]))"

text \<open>The inner \<open>forEach\<close> over the elements of a paragraph.\<close>

fun search_elems ::
  "string \<Rightarrow> paragraph_element list \<Rightarrow> occurrence list \<Rightarrow> occurrence list option" where
  "search_elems target [] occurrences = Some occurrences"
| "search_elems target (elem # elems) occurrences =
     (case textRun elem of
        None \<Rightarrow> search_elems target elems occurrences
      | Some txt \<Rightarrow>
          (if txt = [] then search_elems target elems occurrences
           else (case occurrence_loop txt target (elem_start elem) (indexOf txt target 0)
                        occurrences of
                   None \<Rightarrow> None
                 | Some occurrences' \<Rightarrow> search_elems target elems occurrences')))"

text \<open>The outer \<open>forEach\<close> over the structural elements of the body.\<close>

fun search_content ::
  "string \<Rightarrow> structural_element list \<Rightarrow> occurrence list \<Rightarrow> occurrence list option" where
  "search_content target [] occurrences = Some occurrences"
| "search_content target (element # elements) occurrences =
     (case paragraph element of
        None \<Rightarrow> search_content target elements occurrences
      | Some elems \<Rightarrow>
          (case search_elems target elems occurrences of
             None \<Rightarrow> None
           | Some occurrences' \<Rightarrow> search_content target elements occurrences'))"

definition find_occurrences :: "document \<Rightarrow> string \<Rightarrow> occurrence list option" where
  "find_occurrences doc target =
     (case body_content doc of
        None \<Rightarrow> Some []
      | Some content \<Rightarrow> search_content target content [])"

text \<open>The array \<open>fields\<close> built for one occurrence.\<close>

definition style_fields :: "format_instruction \<Rightarrow> string list" where
  "style_fields format =
     (if bold format \<noteq> None then [''bold''] else [])
     @ (if italic format \<noteq> None then [''italic''] else [])
     @ (if underline format \<noteq> None then [''underline''] else [])"

text \<open>The requests pushed for one occurrence: the text style, then the heading style.\<close>

definition occurrence_requests :: "format_instruction \<Rightarrow> occurrence \<Rightarrow> request list" where
  "occurrence_requests format occ =
     (let textStyle = TextStyle (bold format) (italic format) (underline format);
          fields = style_fields format
      in (if length fields > 0
          then [UpdateTextStyle (fst occ) (snd occ) textStyle (join '','' fields)]
          else [])
         @ (case heading format of
              None \<Rightarrow> []
            | Some h \<Rightarrow>
                (if h = 0 then []
                 else (let headingType = (if h = 1 then ''HEADING_1''
                                          else if h = 2 then ''HEADING_2'' else ''HEADING_3'')
                       in [UpdateParagraphStyle (fst occ) (snd occ) headingType
                             ''namedStyleType'']))))"

fun apply_occurrences ::
  "format_instruction \<Rightarrow> occurrence list \<Rightarrow> request list \<Rightarrow> request list" where
  "apply_occurrences format [] requests = requests"
| "apply_occurrences format (occ # occs) requests =
     apply_occurrences format occs (requests @ occurrence_requests format occ)"

text \<open>The loop over the formatting instructions.\<close>

fun format_all ::
  "document \<Rightarrow> format_instruction list \<Rightarrow> request list \<Rightarrow> request list option" where
  "format_all doc [] requests = Some requests"
| "format_all doc (format # formatting) requests =
     (case find_occurrences doc (text format) of
        None \<Rightarrow> None
      | Some occurrences \<Rightarrow>
          format_all doc formatting (apply_occurrences format occurrences requests))"

definition FormatDoc :: "clients \<Rightarrow> string \<Rightarrow> format_instruction list \<Rightarrow> outcome option" where
  "FormatDoc cl documentId formatting =
     (case docsClient cl of
        None \<Rightarrow> Some not_initialized
      | Some docs \<Rightarrow>
          (case documents_get docs documentId of
             Inl err \<Rightarrow> Some (caught err [DocumentsGet documentId])
           | Inr doc \<Rightarrow>
               (case format_all doc formatting [] of
                  None \<Rightarrow> None
                | Some requests \<Rightarrow>
                    (if length requests > 0 then
                       (case documents_batchUpdate docs documentId requests of
                          Some err \<Rightarrow>
                            Some (caught err [DocumentsGet documentId,
                                              DocumentsBatchUpdate documentId requests])
                        | None \<Rightarrow>
                            Some (ToolResult (AppliedFormatting documentId) False,
                                  [DocumentsGet documentId,
                                   DocumentsBatchUpdate documentId requests]))
                     else Some (ToolResult (AppliedFormatting documentId) False,
                                [DocumentsGet documentId])))))"

section \<open>ConvertToTable\<close>

text \<open>
  The body of the inner \<open>forEach\<close> that looks for the table: the pair is
  \<open>(tableStartIndex, tableEndIndex)\<close>, both \<open>-1\<close> at the start.
\<close>

definition locate_in_elem :: "string list \<Rightarrow> paragraph_element \<Rightarrow> int \<times> int \<Rightarrow> int \<times> int" where
  "locate_in_elem lines elem bounds =
     (case textRun elem of
        None \<Rightarrow> bounds
      | Some txt \<Rightarrow>
          (if txt = [] then bounds
           else (let index = indexOf txt (hd lines) 0
                 in if index \<noteq> - 1 \<and> fst bounds = - 1 then
                      (let tableStartIndex = elem_start elem + index;
                           lastLine = last lines;
                           endIndex = indexOf txt lastLine 0
                       in if endIndex \<noteq> - 1
                          then (tableStartIndex,
                                elem_start elem + endIndex + int (length lastLine))
                          else (tableStartIndex, snd bounds))
                    else bounds)))"

definition locate_in_element :: "string list \<Rightarrow> structural_element \<Rightarrow> int \<times> int \<Rightarrow> int \<times> int" where
  "locate_in_element lines element bounds =
     (case paragraph element of
        None \<Rightarrow> bounds
      | Some elems \<Rightarrow> fold (locate_in_elem lines) elems bounds)"

definition locate_table :: "document \<Rightarrow> string list \<Rightarrow> int \<times> int" where
  "locate_table doc lines =
     (case body_content doc of
        None \<Rightarrow> (- 1, - 1)
      | Some content \<Rightarrow> fold (locate_in_element lines) content (- 1, - 1))"

text \<open>The first batch: delete the markdown text, insert the table.\<close>

definition table_requests :: "string list list \<Rightarrow> int \<Rightarrow> int \<Rightarrow> request list" where
  "table_requests rows tableStartIndex tableEndIndex =
     (if tableEndIndex > tableStartIndex
      then [DeleteContentRange tableStartIndex tableEndIndex] else [])
     @ [InsertTable (length rows) (length (rows ! 0)) tableStartIndex]"

text \<open>The second batch: the two nested \<open>for\<close> statements over row and column indices.\<close>

definition row_cell_requests ::
  "int \<Rightarrow> string list list \<Rightarrow> nat \<Rightarrow> request list \<Rightarrow> request list" where
  "row_cell_requests tableStartIndex rows rowIndex cellRequests =
     fold (\<lambda>colIndex reqs.
             (let cellText = rows ! rowIndex ! colIndex
              in if cellText \<noteq> [] then
                   (let cellIndex = tableStartIndex + 4 + (int rowIndex * 5) + (int colIndex * 2)
                    in reqs @ [InsertText cellIndex cellText])
                 else reqs))
          [0..<length (rows ! rowIndex)] cellRequests"

definition cell_requests :: "int \<Rightarrow> string list list \<Rightarrow> request list" where
  "cell_requests tableStartIndex rows =
     fold (row_cell_requests tableStartIndex rows) [0..<length rows] []"

definition ConvertToTable :: "clients \<Rightarrow> string \<Rightarrow> string \<Rightarrow> outcome" where
  "ConvertToTable cl documentId tableText =
     (case docsClient cl of
        None \<Rightarrow> not_initialized
      | Some docs \<Rightarrow>
          (let lines = table_lines tableText;
               rows = parse_rows lines []
           in if length rows = 0 then (ToolResult NoValidTableData True, [])
              else
                (case documents_get docs documentId of
                   Inl err \<Rightarrow> caught err [DocumentsGet documentId]
                 | Inr doc \<Rightarrow>
                     (let bounds = locate_table doc lines;
                          tableStartIndex = fst bounds;
                          tableEndIndex = snd bounds
                      in if tableStartIndex = - 1
                         then (ToolResult TableTextNotFound True, [DocumentsGet documentId])
                         else
                           (let requests = table_requests rows tableStartIndex tableEndIndex
                            in case documents_batchUpdate docs documentId requests of
                                 Some err \<Rightarrow>
                                   caught err [DocumentsGet documentId,
                                               DocumentsBatchUpdate documentId requests]
                               | None \<Rightarrow>
                                   (let cellRequests = cell_requests tableStartIndex rows;
                                        converted = ToolResult
                                          (Converted (length rows) (length (rows ! 0))) False
                                    in if length cellRequests > 0 then
                                         (case documents_batchUpdate docs documentId
                                                 cellRequests of
                                            Some err \<Rightarrow>
                                              caught err
                                                [DocumentsGet documentId,
                                                 DocumentsBatchUpdate documentId requests,
                                                 DocumentsBatchUpdate documentId cellRequests]
                                          | None \<Rightarrow>
                                              (converted,
                                               [DocumentsGet documentId,
                                                DocumentsBatchUpdate documentId requests,
                                                DocumentsBatchUpdate documentId cellRequests]))
                                       else (converted,
                                             [DocumentsGet documentId,
                                              DocumentsBatchUpdate documentId requests])))))))"

section \<open>Notions the properties are stated with\<close>

subsection \<open>Inserted fences\<close>

text \<open>
  A line of the output of \<open>formatMarkdownTable\<close> is either a fence the function
  inserted or a line of its input. \<open>render\<close> gives the text of such a line, \<open>input_lines\<close>
  forgets the fences and \<open>fences\<close> counts them. \<open>fenced out inside\<close> reads the output
  from the top, each fence switching between outside and inside a block: a line is inside
  exactly when it contains a bar, and the reading ends outside. \<open>tagged_lines\<close> is the
  loop of \<open>formatLines\<close> with each pushed line marked as a fence or an input line.
\<close>

datatype out_line = Fence | Line string

fun render :: "out_line \<Rightarrow> string" where
  "render Fence = fence"
| "render (Line l) = l"

fun input_lines :: "out_line list \<Rightarrow> string list" where
  "input_lines [] = []"
| "input_lines (Fence # out) = input_lines out"
| "input_lines (Line l # out) = l # input_lines out"

fun fences :: "out_line list \<Rightarrow> nat" where
  "fences [] = 0"
| "fences (Fence # out) = Suc (fences out)"
| "fences (Line l # out) = fences out"

fun fenced :: "out_line list \<Rightarrow> bool \<Rightarrow> bool" where
  "fenced [] inside = (\<not> inside)"
| "fenced (Fence # out) inside = fenced out (\<not> inside)"
| "fenced (Line l # out) inside = ((CHR ''|'' \<in> set l \<longleftrightarrow> inside) \<and> fenced out inside)"

fun tagged_lines :: "string list \<Rightarrow> bool \<Rightarrow> out_line list" where
  "tagged_lines [] inTable = (if inTable then [Fence] else [])"
| "tagged_lines (line # lines) inTable =
     (if (CHR ''|'' \<in> set line) = inTable then Line line # tagged_lines lines inTable
      else Fence # Line line # tagged_lines lines (\<not> inTable))"

subsection \<open>Kinds of table lines\<close>

text \<open>
  \<open>separator_chars_only\<close>: the line consists of bars, dashes, colons and white space only.
  \<open>separator_line\<close>: such a line with a bar after its first character.
  \<open>row_line\<close>: a line with a non-blank cell in which no bar after the first character is
  reached through separator characters only. \<open>blank_line\<close>: white space only.
\<close>

definition separator_chars_only :: "string \<Rightarrow> bool" where
  "separator_chars_only line = list_all sep_class line"

definition separator_line :: "string \<Rightarrow> bool" where
  "separator_line line \<longleftrightarrow> separator_chars_only line \<and> CHR ''|'' \<in> set (tl line)"

definition row_line :: "string \<Rightarrow> bool" where
  "row_line line \<longleftrightarrow>
     parse_cells line \<noteq> [] \<and> CHR ''|'' \<notin> set (tl (takeWhile sep_class line))"

definition blank_line :: "string \<Rightarrow> bool" where
  "blank_line line = list_all is_space line"

subsection \<open>Text runs and occurrences\<close>

text \<open>
  The text runs of a document in document order, each with its start offset: the runs
  that the nested \<open>forEach\<close> calls of FormatDoc and ConvertToTable visit (a run
  without content or with empty content is passed over).
\<close>

definition elem_runs :: "paragraph_element list \<Rightarrow> (string \<times> int) list" where
  "elem_runs elems =
     concat (map (\<lambda>elem. case textRun elem of
                            None \<Rightarrow> []
                          | Some txt \<Rightarrow> if txt = [] then [] else [(txt, elem_start elem)]) elems)"

definition element_runs :: "structural_element \<Rightarrow> (string \<times> int) list" where
  "element_runs element =
     (case paragraph element of None \<Rightarrow> [] | Some elems \<Rightarrow> elem_runs elems)"

definition text_runs :: "document \<Rightarrow> (string \<times> int) list" where
  "text_runs doc =
     (case body_content doc of
        None \<Rightarrow> []
      | Some content \<Rightarrow> concat (map element_runs content))"

text \<open>
  The positions of a run at which the target stands, overlapping ones included, and the
  ranges they give in one run and in the whole document.
\<close>

definition match_positions :: "string \<Rightarrow> string \<Rightarrow> nat list" where
  "match_positions target txt = filter (\<lambda>i. prefix target (drop i txt)) [0..<length txt]"

definition run_occurrences :: "string \<Rightarrow> string \<times> int \<Rightarrow> occurrence list" where
  "run_occurrences target run =
     map (\<lambda>i. (snd run + int i, snd run + int i + int (length target)))
         (match_positions target (fst run))"

definition document_occurrences :: "document \<Rightarrow> string \<Rightarrow> occurrence list" where
  "document_occurrences doc target = concat (map (run_occurrences target) (text_runs doc))"

text \<open>
  The first run in which a line occurs, and the table bounds read off a run: the start is
  the first occurrence of the first line, the end is the end of the first occurrence of
  the last line in the same run, \<open>-1\<close> when the run does not contain the last line.
\<close>

definition first_run_with :: "string \<Rightarrow> (string \<times> int) list \<Rightarrow> (string \<times> int) option" where
  "first_run_with line runs = find (\<lambda>run. sublist line (fst run)) runs"

definition located_bounds :: "string list \<Rightarrow> string \<times> int \<Rightarrow> int \<times> int" where
  "located_bounds lines run =
     (snd run + indexOf (fst run) (hd lines) 0,
      if sublist (last lines) (fst run)
      then snd run + indexOf (fst run) (last lines) 0 + int (length (last lines))
      else - 1)"

subsection \<open>Example inputs\<close>

text \<open>
  A service whose calls all succeed and whose \<open>get\<close> answers with a given document, the
  client handles with and without it, a document with one paragraph per given text run,
  and the table of the specification's example.
\<close>

definition stub_docs :: "document \<Rightarrow> docs_service" where
  "stub_docs doc =
     \<lparr>documents_create = (\<lambda>title. Inr ''new''),
      documents_get = (\<lambda>documentId. Inr doc),
      documents_batchUpdate = (\<lambda>documentId requests. None)\<rparr>"

definition stub_clients :: "document \<Rightarrow> clients" where
  "stub_clients doc = \<lparr>docsClient = Some (stub_docs doc), driveClient = None\<rparr>"

definition no_clients :: clients where
  "no_clients = \<lparr>docsClient = None, driveClient = None\<rparr>"

definition runs_doc :: "(nat \<times> string) list \<Rightarrow> document" where
  "runs_doc runs =
     \<lparr>body_content = Some (map (\<lambda>run.
        \<lparr>paragraph = Some [\<lparr>startIndex = Some (fst run), textRun = Some (snd run)\<rparr>],
         endIndex = Some (fst run + length (snd run))\<rparr>) runs)\<rparr>"

definition example_table :: string where
  "example_table = ''| A | B |\<newline>|---|---|\<newline>| 1 | 2 |''"

section \<open>Lemmas\<close>

subsection \<open>split and join\<close>

lemma split_not_Nil: "split d s \<noteq> []"
  by (induction s) (auto split: list.splits)

lemma join_Cons_Cons: "join sep ((c # x) # xs) = c # join sep (x # xs)"
  by (cases xs) auto

lemma join_Nil_Cons: "xs \<noteq> [] \<Longrightarrow> join sep ([] # xs) = sep @ join sep xs"
  by (cases xs) auto

lemma join_split: "join [d] (split d s) = s"
proof (induction s)
  case Nil
  show ?case by simp
next
  case (Cons c cs)
  show ?case
  proof (cases "c = d")
    case True
    with Cons show ?thesis by (simp add: join_Nil_Cons split_not_Nil)
  next
    case False
    obtain p ps where ps: "split d cs = p # ps"
      using split_not_Nil [of d cs] by (cases "split d cs") auto
    with False Cons show ?thesis by (simp add: join_Cons_Cons)
  qed
qed

lemma split_pieces_subset: "piece \<in> set (split d s) \<Longrightarrow> set piece \<subseteq> set s"
proof (induction s arbitrary: piece)
  case Nil
  then show ?case by simp
next
  case (Cons c cs)
  show ?case
  proof (cases "c = d")
    case True
    with Cons show ?thesis by auto
  next
    case False
    obtain p ps where ps: "split d cs = p # ps"
      using split_not_Nil [of d cs] by (cases "split d cs") auto
    from Cons.prems False ps have "piece = c # p \<or> piece \<in> set ps" by simp
    then show ?thesis
    proof
      assume "piece = c # p"
      moreover have "set p \<subseteq> set cs" using Cons.IH [of p] ps by simp
      ultimately show ?thesis by auto
    next
      assume "piece \<in> set ps"
      then have "set piece \<subseteq> set cs" using Cons.IH [of piece] ps by simp
      then show ?thesis by auto
    qed
  qed
qed

lemma split_no_separator: "d \<notin> set s \<Longrightarrow> split d s = [s]"
  by (induction s) auto

subsection \<open>The loop of formatMarkdownTable\<close>

lemma formatLines_tagged:
  "formatLines lines inTable out = out @ map render (tagged_lines lines inTable)"
  by (induction lines inTable out rule: formatLines.induct) auto

lemma input_lines_tagged: "input_lines (tagged_lines lines inTable) = lines"
  by (induction lines arbitrary: inTable) auto

lemma fenced_tagged: "fenced (tagged_lines lines inTable) inTable"
  by (induction lines arbitrary: inTable) auto

lemma fences_tagged: "even (fences (tagged_lines lines inTable)) \<longleftrightarrow> \<not> inTable"
  by (induction lines arbitrary: inTable) auto

lemma tagged_no_bar:
  "\<forall>l \<in> set lines. CHR ''|'' \<notin> set l \<Longrightarrow> tagged_lines lines False = map Line lines"
  by (induction lines) auto

lemma formatMarkdownTable_no_bar:
  assumes "CHR ''|'' \<notin> set txt"
  shows "formatMarkdownTable txt = txt"
proof -
  have "\<forall>l \<in> set (split CHR ''\<newline>'' txt). CHR ''|'' \<notin> set l"
    using assms split_pieces_subset by blast
  then have "tagged_lines (split CHR ''\<newline>'' txt) False = map Line (split CHR ''\<newline>'' txt)"
    by (rule tagged_no_bar)
  then have "formatLines (split CHR ''\<newline>'' txt) False [] = split CHR ''\<newline>'' txt"
    by (simp add: formatLines_tagged comp_def)
  then show ?thesis
    by (simp add: formatMarkdownTable_def join_split)
qed

subsection \<open>The separator pattern and the rows\<close>

text \<open>
  The pattern matches exactly the lines whose leading run of separator characters holds a
  bar after the first character.
\<close>

lemma match_more_then_bar_iff:
  "match_more_then_bar cs \<longleftrightarrow> CHR ''|'' \<in> set (takeWhile sep_class cs)"
  by (induction cs) (auto simp: sep_class_def)

lemma match_class_plus_bar_iff:
  "match_class_plus_bar l \<longleftrightarrow> CHR ''|'' \<in> set (tl (takeWhile sep_class l))"
  by (cases l) (auto simp: match_more_then_bar_iff)

lemma is_separator_iff:
  "is_separator l \<longleftrightarrow> CHR ''|'' \<in> set (tl (takeWhile sep_class l))"
proof (cases l)
  case Nil
  then show ?thesis by simp
next
  case (Cons c cs)
  have "match_class_plus_bar cs \<Longrightarrow> c = CHR ''|'' \<Longrightarrow> match_class_plus_bar (c # cs)"
    by (cases cs) (auto simp: match_more_then_bar_iff sep_class_def)
  then show ?thesis
    using Cons match_class_plus_bar_iff [of "c # cs"] by auto
qed

lemma separator_line_is_separator: "separator_line l \<Longrightarrow> is_separator l"
proof -
  assume a: "separator_line l"
  then have tw: "takeWhile sep_class l = l"
    by (simp add: separator_line_def separator_chars_only_def list_all_iff)
  from a have "CHR ''|'' \<in> set (tl l)" by (simp add: separator_line_def)
  then show ?thesis unfolding is_separator_iff tw .
qed

lemma row_line_not_separator: "row_line l \<Longrightarrow> \<not> is_separator l \<and> parse_cells l \<noteq> []"
  by (simp add: row_line_def is_separator_iff)

lemma trim_blank: "list_all is_space l \<Longrightarrow> trim l = []"
proof -
  assume "list_all is_space l"
  then have dw: "dropWhile is_space l = []" by (simp add: list_all_iff)
  show ?thesis unfolding trim_def dw by simp
qed

lemma bar_not_space: "\<not> is_space CHR ''|''"
  by (simp add: is_space_def)

lemma in_set_tl: "x \<in> set (tl xs) \<Longrightarrow> x \<in> set xs"
  by (cases xs) auto

lemma blank_line_no_row: "blank_line l \<Longrightarrow> \<not> is_separator l \<and> parse_cells l = []"
proof -
  assume a: "blank_line l"
  then have nobar: "CHR ''|'' \<notin> set l"
    using bar_not_space by (auto simp: blank_line_def list_all_iff)
  then have "CHR ''|'' \<notin> set (tl (takeWhile sep_class l))"
    using in_set_tl [of "CHR ''|''" "takeWhile sep_class l"] set_takeWhileD by fastforce
  moreover have "parse_cells l = []"
    using a nobar by (simp add: parse_cells_def split_no_separator blank_line_def trim_blank)
  ultimately show ?thesis by (simp add: is_separator_iff)
qed

lemma parse_rows_filter:
  "parse_rows ls rows =
     rows @ map parse_cells (filter (\<lambda>l. \<not> is_separator l \<and> parse_cells l \<noteq> []) ls)"
  by (induction ls arbitrary: rows) (auto simp: Let_def)

lemma three_way_count:
  assumes "\<forall>x \<in> set xs. Q x \<or> P x \<or> R x"
    and "\<And>x. \<not> (P x \<and> Q x)" and "\<And>x. \<not> (P x \<and> R x)" and "\<And>x. \<not> (Q x \<and> R x)"
  shows "length xs = length (filter P xs) + length (filter Q xs) + length (filter R xs)"
  using assms(1)
proof (induction xs)
  case Nil
  show ?case by simp
next
  case (Cons x xs)
  then have "length xs = length (filter P xs) + length (filter Q xs) + length (filter R xs)"
    by simp
  moreover have "Q x \<or> P x \<or> R x" using Cons.prems by simp
  ultimately show ?case
    using assms(2) [of x] assms(3) [of x] assms(4) [of x] by auto
qed

subsection \<open>indexOf\<close>

lemma indexOf_scan_found:
  "j \<le> length s \<Longrightarrow> prefix target (drop j s) \<Longrightarrow> (\<forall>i<j. \<not> prefix target (drop i s))
     \<Longrightarrow> indexOf_scan target s k = int (k + j)"
proof (induction s arbitrary: j k)
  case Nil
  then show ?case by simp
next
  case (Cons c cs)
  show ?case
  proof (cases j)
    case 0
    with Cons.prems show ?thesis by simp
  next
    case (Suc j')
    with Cons.prems have no: "\<not> prefix target (c # cs)" by fastforce
    have "\<forall>i<j'. \<not> prefix target (drop i cs)"
      using Cons.prems(3) Suc by fastforce
    with Cons.IH [of j' "Suc k"] Cons.prems Suc
    have "indexOf_scan target cs (Suc k) = int (Suc k + j')" by simp
    with no Suc show ?thesis by simp
  qed
qed

lemma indexOf_scan_none:
  "(\<forall>j\<le>length s. \<not> prefix target (drop j s)) \<Longrightarrow> indexOf_scan target s k = - 1"
proof (induction s arbitrary: k)
  case Nil
  then show ?case by simp
next
  case (Cons c cs)
  from Cons.prems have no: "\<not> prefix target (c # cs)" by fastforce
  have "\<forall>j\<le>length cs. \<not> prefix target (drop j cs)"
  proof (intro allI impI)
    fix j assume "j \<le> length cs"
    then show "\<not> prefix target (drop j cs)" using Cons.prems [rule_format, of "Suc j"] by simp
  qed
  with Cons.IH [of "Suc k"] no show ?case by simp
qed

lemma sublist_iff_prefix_drop:
  "sublist target s \<longleftrightarrow> (\<exists>j\<le>length s. prefix target (drop j s))"
proof
  assume "sublist target s"
  then obtain ps ss where "s = ps @ target @ ss" by (auto simp: sublist_def)
  then have "length ps \<le> length s \<and> prefix target (drop (length ps) s)" by simp
  then show "\<exists>j\<le>length s. prefix target (drop j s)" by blast
next
  assume "\<exists>j\<le>length s. prefix target (drop j s)"
  then obtain j ss where "drop j s = target @ ss" by (auto simp: prefix_def)
  then have "s = take j s @ target @ ss" by (metis append_take_drop_id)
  then show "sublist target s" unfolding sublist_def by blast
qed

lemma indexOf_scan_cases:
  "(indexOf_scan target s k = - 1 \<and> (\<forall>j\<le>length s. \<not> prefix target (drop j s))) \<or>
   (\<exists>j\<le>length s. indexOf_scan target s k = int (k + j) \<and> prefix target (drop j s)
      \<and> (\<forall>i<j. \<not> prefix target (drop i s)))"
proof (cases "\<exists>j\<le>length s. prefix target (drop j s)")
  case False
  then show ?thesis using indexOf_scan_none [of s target k] by blast
next
  case True
  define P where "P j \<longleftrightarrow> j \<le> length s \<and> prefix target (drop j s)" for j
  from True have ex: "\<exists>j. P j" by (auto simp: P_def)
  define m where "m = (LEAST j. P j)"
  have Pm: "P m" unfolding m_def using ex by (metis LeastI)
  have least: "\<forall>i<m. \<not> P i" unfolding m_def using not_less_Least by blast
  have "\<forall>i<m. \<not> prefix target (drop i s)"
    using least Pm by (auto simp: P_def)
  with Pm have "indexOf_scan target s k = int (k + m)"
    using indexOf_scan_found [of m s target k] by (simp add: P_def)
  with Pm \<open>\<forall>i<m. \<not> prefix target (drop i s)\<close> show ?thesis
    unfolding P_def by blast
qed

lemma indexOf_not_found_iff: "indexOf txt target 0 = - 1 \<longleftrightarrow> \<not> sublist target txt"
  using indexOf_scan_cases [of target "txt" 0]
  by (auto simp: indexOf_def sublist_iff_prefix_drop)

lemma indexOf_nat: "k \<le> length txt \<Longrightarrow> indexOf txt target (int k) = indexOf_scan target (drop k txt) k"
  by (simp add: indexOf_def min_def)

subsection \<open>The occurrence loop\<close>

text \<open>
  For a non-empty target the loop ends and returns the positions at which the target
  stands, in order. For the empty target \<open>indexOf\<close> never answers \<open>-1\<close>, and a loop
  that has started does not return.
\<close>

lemma occurrence_loop_stop: "occurrence_loop txt target start (- 1) occs = Some occs"
  by (simp add: occurrence_loop.simps)

lemma occurrence_loop_step:
  "occurrence_loop txt target start (int i) occs =
     occurrence_loop txt target start (indexOf txt target (int (Suc i)))
       (occs @ [(start + int i, start + int i + int (length target))])"
  by (subst occurrence_loop.simps) (simp add: add.commute)

lemma occurrence_loop_closed:
  assumes "target \<noteq> []"
  shows "k \<le> length txt \<Longrightarrow>
     occurrence_loop txt target start (indexOf txt target (int k)) occs =
       Some (occs @ map (\<lambda>i. (start + int i, start + int i + int (length target)))
                        (filter (\<lambda>i. prefix target (drop i txt)) [k..<length txt]))"
proof (induction "length txt - k" arbitrary: k occs rule: less_induct)
  case less
  let ?Q = "\<lambda>i. prefix target (drop i txt)"
  let ?s = "drop k txt"
  from indexOf_scan_cases [of target ?s k]
  show ?case
  proof
    assume a: "indexOf_scan target ?s k = - 1 \<and> (\<forall>j\<le>length ?s. \<not> prefix target (drop j ?s))"
    have "filter ?Q [k..<length txt] = []"
    proof -
      have "\<not> ?Q i" if "i \<in> set [k..<length txt]" for i
      proof -
        from that have "i - k \<le> length ?s" and "k + (i - k) = i" by auto
        with a have "\<not> prefix target (drop (i - k) ?s)" by blast
        then show ?thesis using \<open>k + (i - k) = i\<close> by (simp add: add.commute)
      qed
      then show ?thesis by (simp add: filter_empty_conv)
    qed
    with a less.prems show ?thesis
      by (simp add: indexOf_nat occurrence_loop_stop)
  next
    assume "\<exists>j\<le>length ?s. indexOf_scan target ?s k = int (k + j) \<and> prefix target (drop j ?s)
      \<and> (\<forall>i<j. \<not> prefix target (drop i ?s))"
    then obtain j where j: "j \<le> length ?s" "indexOf_scan target ?s k = int (k + j)"
      "prefix target (drop j ?s)" "\<forall>i<j. \<not> prefix target (drop i ?s)" by blast
    let ?m = "k + j"
    from j(3) have Qm: "?Q ?m" by (simp add: add.commute)
    have m_lt: "?m < length txt"
    proof (rule ccontr)
      assume "\<not> ?m < length txt"
      then have "drop ?m txt = []" by simp
      with Qm assms show False by simp
    qed
    have before: "filter ?Q [k..<?m] = []"
    proof -
      have "\<not> ?Q i" if "i \<in> set [k..<?m]" for i
      proof -
        from that have "i - k < j" and "k + (i - k) = i" by auto
        with j(4) have "\<not> prefix target (drop (i - k) ?s)" by blast
        then show ?thesis using \<open>k + (i - k) = i\<close> by (simp add: add.commute)
      qed
      then show ?thesis by (simp add: filter_empty_conv)
    qed
    have "[k..<length txt] = [k..<?m] @ ?m # [Suc ?m..<length txt]"
      using m_lt by (metis le_add1 less_imp_le_nat upt_conv_Cons le_Suc_ex upt_add_eq_append)
    then have split: "filter ?Q [k..<length txt] = ?m # filter ?Q [Suc ?m..<length txt]"
      using before Qm by simp
    have "length txt - Suc ?m < length txt - k" using m_lt by simp
    moreover have "Suc ?m \<le> length txt" using m_lt by simp
    ultimately have IH:
      "occurrence_loop txt target start (indexOf txt target (int (Suc ?m)))
         (occs @ [(start + int ?m, start + int ?m + int (length target))]) =
       Some ((occs @ [(start + int ?m, start + int ?m + int (length target))])
             @ map (\<lambda>i. (start + int i, start + int i + int (length target)))
                   (filter ?Q [Suc ?m..<length txt]))"
      by (rule less.hyps)
    have idx: "indexOf txt target (int k) = int ?m"
      using less.prems j(2) by (simp add: indexOf_nat)
    have "occurrence_loop txt target start (indexOf txt target (int k)) occs =
          occurrence_loop txt target start (int ?m) occs"
      by (simp only: idx)
    also have "\<dots> = occurrence_loop txt target start (indexOf txt target (int (Suc ?m)))
         (occs @ [(start + int ?m, start + int ?m + int (length target))])"
      by (rule occurrence_loop_step)
    also note IH
    finally show ?thesis by (simp only: split list.map append_assoc append_Cons append_Nil)
  qed
qed

lemma occurrence_loop_run:
  assumes "target \<noteq> []"
  shows "occurrence_loop txt target start (indexOf txt target 0) occs =
           Some (occs @ run_occurrences target (txt, start))"
  using occurrence_loop_closed [OF assms, of 0 "txt" start occs]
  by (simp add: run_occurrences_def match_positions_def)

lemma indexOf_empty_nonneg: "0 \<le> indexOf txt [] position"
  by (cases "drop (nat (min (max position 0) (int (length txt)))) txt")
     (simp_all add: indexOf_def Let_def)

lemma occurrence_loop_result:
  assumes "occurrence_loop txt target start index occs = Some result"
  shows "target \<noteq> [] \<or> index = - 1"
proof (rule occurrence_loop.raw_induct
    [where P = "\<lambda>txt target start index occs result. target \<noteq> [] \<or> index = - 1", OF _ assms])
  fix loop and run target :: string and start index :: int and occs result :: "occurrence list"
  assume IH: "\<And>run target start index occs result.
      loop run target start index occs = Some result \<Longrightarrow> target \<noteq> [] \<or> index = - 1"
    and step: "(if index = - 1 then Some occs
      else loop run target start (indexOf run target (index + 1))
            (occs @ [(start + index, start + index + int (length target))])) = Some result"
  show "target \<noteq> [] \<or> index = - 1"
  proof (cases "index = - 1")
    case True
    then show ?thesis by simp
  next
    case False
    with step have "loop run target start (indexOf run target (index + 1))
        (occs @ [(start + index, start + index + int (length target))]) = Some result"
      by simp
    from IH [OF this] have "target \<noteq> [] \<or> indexOf run target (index + 1) = - 1" .
    moreover have "target = [] \<Longrightarrow> indexOf run target (index + 1) \<noteq> - 1"
      using indexOf_empty_nonneg [of run "index + 1"] by auto
    ultimately show ?thesis by blast
  qed
qed

lemma occurrence_loop_empty_target:
  "index \<noteq> - 1 \<Longrightarrow> occurrence_loop txt [] start index occs = None"
  using occurrence_loop_result [of "txt" "[]" start index occs]
  by (cases "occurrence_loop txt [] start index occs") auto

lemma search_elems_closed:
  assumes "target \<noteq> []"
  shows "search_elems target elems occs =
           Some (occs @ concat (map (run_occurrences target) (elem_runs elems)))"
  by (induction elems arbitrary: occs)
     (auto simp: elem_runs_def occurrence_loop_run [OF assms] split: option.splits)

lemma search_content_closed:
  assumes "target \<noteq> []"
  shows "search_content target content occs =
           Some (occs @ concat (map (run_occurrences target)
             (concat (map element_runs content))))"
  by (induction content arbitrary: occs)
     (auto simp: search_elems_closed [OF assms] element_runs_def split: option.splits)

lemma find_occurrences_closed:
  "target \<noteq> [] \<Longrightarrow> find_occurrences doc target = Some (document_occurrences doc target)"
  by (simp add: find_occurrences_def document_occurrences_def text_runs_def
      search_content_closed split: option.splits)

subsection \<open>Locating the table\<close>

lemma find_append:
  "find P (xs @ ys) = (case find P xs of None \<Rightarrow> find P ys | Some x \<Rightarrow> Some x)"
  by (induction xs) auto

lemma indexOf_found_nonneg: "indexOf s target 0 \<noteq> - 1 \<Longrightarrow> 0 \<le> indexOf s target 0"
  using indexOf_scan_cases [of target s 0] by (auto simp: indexOf_def)

lemma elem_start_nonneg: "0 \<le> elem_start elem"
  by (simp add: elem_start_def split: option.splits)

lemma locate_in_elem_done: "fst bounds \<noteq> - 1 \<Longrightarrow> locate_in_elem lines elem bounds = bounds"
  by (simp add: locate_in_elem_def Let_def split: option.splits)

lemma locate_elems_done:
  "fst bounds \<noteq> - 1 \<Longrightarrow> fold (locate_in_elem lines) elems bounds = bounds"
  by (induction elems) (simp_all add: locate_in_elem_done)

lemma locate_in_elem_first:
  "locate_in_elem lines elem (- 1, - 1) =
     (case first_run_with (hd lines) (elem_runs [elem]) of
        None \<Rightarrow> (- 1, - 1)
      | Some run \<Rightarrow> located_bounds lines run)"
  by (auto simp: locate_in_elem_def first_run_with_def elem_runs_def located_bounds_def Let_def
      indexOf_not_found_iff split: option.splits)

lemma located_bounds_start:
  "sublist (hd lines) (fst run) \<Longrightarrow> 0 \<le> snd run \<Longrightarrow> 0 \<le> fst (located_bounds lines run)"
  using indexOf_found_nonneg [of "fst run" "hd lines"]
  by (simp add: located_bounds_def indexOf_not_found_iff)

lemma elem_runs_Cons: "elem_runs (elem # elems) = elem_runs [elem] @ elem_runs elems"
  by (simp add: elem_runs_def)

lemma elem_runs_nonneg: "run \<in> set (elem_runs elems) \<Longrightarrow> 0 \<le> snd run"
  by (auto simp: elem_runs_def elem_start_nonneg split: option.splits if_splits)

lemma first_run_with_Some:
  "first_run_with line runs = Some run \<Longrightarrow> run \<in> set runs \<and> sublist line (fst run)"
  by (auto simp: first_run_with_def find_Some_iff)

lemma locate_elems_first:
  "fold (locate_in_elem lines) elems (- 1, - 1) =
     (case first_run_with (hd lines) (elem_runs elems) of
        None \<Rightarrow> (- 1, - 1)
      | Some run \<Rightarrow> located_bounds lines run)"
proof (induction elems)
  case Nil
  show ?case by (simp add: elem_runs_def first_run_with_def)
next
  case (Cons elem elems)
  show ?case
  proof (cases "first_run_with (hd lines) (elem_runs [elem])")
    case None
    then show ?thesis
      using Cons.IH
      by (simp add: locate_in_elem_first elem_runs_Cons [of elem elems] first_run_with_def
          find_append)
  next
    case (Some run)
    then have "0 \<le> fst (located_bounds lines run)"
      using first_run_with_Some [OF Some] elem_runs_nonneg located_bounds_start by blast
    then have "fst (located_bounds lines run) \<noteq> - 1" by simp
    then have "fold (locate_in_elem lines) elems (located_bounds lines run)
                 = located_bounds lines run"
      by (rule locate_elems_done)
    with Some show ?thesis
      using Some
      by (simp add: locate_in_elem_first elem_runs_Cons [of elem elems] first_run_with_def
          find_append)
  qed
qed

lemma locate_in_element_done:
  "fst bounds \<noteq> - 1 \<Longrightarrow> locate_in_element lines element bounds = bounds"
  by (simp add: locate_in_element_def locate_elems_done split: option.splits)

lemma locate_content_done:
  "fst bounds \<noteq> - 1 \<Longrightarrow> fold (locate_in_element lines) content bounds = bounds"
  by (induction content) (simp_all add: locate_in_element_done)

lemma locate_in_element_first:
  "locate_in_element lines element (- 1, - 1) =
     (case first_run_with (hd lines) (element_runs element) of
        None \<Rightarrow> (- 1, - 1)
      | Some run \<Rightarrow> located_bounds lines run)"
  by (simp add: locate_in_element_def element_runs_def locate_elems_first first_run_with_def
      split: option.splits)

lemma locate_content_first:
  "fold (locate_in_element lines) content (- 1, - 1) =
     (case first_run_with (hd lines) (concat (map element_runs content)) of
        None \<Rightarrow> (- 1, - 1)
      | Some run \<Rightarrow> located_bounds lines run)"
proof (induction content)
  case Nil
  show ?case by (simp add: first_run_with_def)
next
  case (Cons element content)
  show ?case
  proof (cases "first_run_with (hd lines) (element_runs element)")
    case None
    then show ?thesis
      using Cons.IH by (simp add: locate_in_element_first first_run_with_def find_append)
  next
    case (Some run)
    have "run \<in> set (element_runs element)" "sublist (hd lines) (fst run)"
      using first_run_with_Some [OF Some] by auto
    then have "0 \<le> fst (located_bounds lines run)"
      using elem_runs_nonneg [of run] located_bounds_start [of lines run]
      by (auto simp: element_runs_def split: option.splits)
    then have "fst (located_bounds lines run) \<noteq> - 1" by simp
    then have "fold (locate_in_element lines) content (located_bounds lines run)
                 = located_bounds lines run"
      by (rule locate_content_done)
    with Some show ?thesis
      by (simp add: locate_in_element_first first_run_with_def find_append)
  qed
qed

lemma locate_table_first:
  "locate_table doc lines =
     (case first_run_with (hd lines) (text_runs doc) of
        None \<Rightarrow> (- 1, - 1)
      | Some run \<Rightarrow> located_bounds lines run)"
  by (simp add: locate_table_def text_runs_def locate_content_first first_run_with_def
      split: option.splits)

subsection \<open>Searches that find nothing, and the requests of FormatDoc\<close>

lemma search_elems_none:
  "(\<forall>run \<in> set (elem_runs elems). \<not> sublist target (fst run)) \<Longrightarrow>
     search_elems target elems occs = Some occs"
  by (induction elems)
     (auto simp: elem_runs_def indexOf_not_found_iff [symmetric] occurrence_loop_stop
       split: option.splits)

lemma search_content_none:
  "(\<forall>run \<in> set (concat (map element_runs content)). \<not> sublist target (fst run)) \<Longrightarrow>
     search_content target content occs = Some occs"
  by (induction content)
     (auto simp: element_runs_def search_elems_none split: option.splits)

lemma find_occurrences_none:
  "(\<forall>run \<in> set (text_runs doc). \<not> sublist target (fst run)) \<Longrightarrow>
     find_occurrences doc target = Some []"
proof (cases "body_content doc")
  case None
  then show ?thesis by (simp add: find_occurrences_def)
next
  case (Some content)
  assume "\<forall>run \<in> set (text_runs doc). \<not> sublist target (fst run)"
  with Some have "\<forall>run \<in> set (concat (map element_runs content)). \<not> sublist target (fst run)"
    by (simp add: text_runs_def)
  then have "search_content target content [] = Some []" by (rule search_content_none)
  with Some show ?thesis by (simp add: find_occurrences_def)
qed

lemma apply_occurrences_concat:
  "apply_occurrences format occs requests =
     requests @ concat (map (occurrence_requests format) occs)"
  by (induction occs arbitrary: requests) auto

lemma format_all_none:
  "(\<forall>format \<in> set formatting. \<forall>run \<in> set (text_runs doc). \<not> sublist (text format) (fst run))
     \<Longrightarrow> format_all doc formatting requests = Some requests"
  by (induction formatting arbitrary: requests) (auto simp: find_occurrences_none)

lemma format_all_returns:
  "(\<forall>format \<in> set formatting. text format \<noteq> []) \<Longrightarrow>
     \<exists>out. format_all doc formatting requests = Some out"
  by (induction formatting arbitrary: requests) (auto simp: find_occurrences_closed)

lemma FormatDoc_returns:
  assumes "\<forall>format \<in> set formatting. text format \<noteq> []"
  shows "\<exists>out. FormatDoc cl documentId formatting = Some out"
proof (cases "docsClient cl")
  case None
  then show ?thesis by (simp add: FormatDoc_def)
next
  case (Some docs)
  show ?thesis
  proof (cases "documents_get docs documentId")
    case (Inl err)
    with Some show ?thesis by (simp add: FormatDoc_def)
  next
    case (Inr doc)
    from format_all_returns [OF assms, of doc "[]"]
    obtain requests where "format_all doc formatting [] = Some requests" by blast
    with Some Inr show ?thesis by (simp add: FormatDoc_def split: option.splits)
  qed
qed

lemma search_elems_empty_target:
  "search_elems [] elems occs = Some result \<Longrightarrow> elem_runs elems = [] \<and> result = occs"
proof (induction elems arbitrary: occs)
  case Nil
  then show ?case by (simp add: elem_runs_def)
next
  case (Cons elem elems)
  show ?case
  proof (cases "textRun elem")
    case None
    with Cons show ?thesis by (simp add: elem_runs_def)
  next
    case (Some run)
    show ?thesis
    proof (cases "run = []")
      case True
      with Some Cons show ?thesis by (simp add: elem_runs_def)
    next
      case False
      have "indexOf run [] 0 \<noteq> - 1"
        using indexOf_empty_nonneg [of run 0] by simp
      then have "occurrence_loop run [] (elem_start elem) (indexOf run [] 0) occs = None"
        by (rule occurrence_loop_empty_target)
      with Some False Cons.prems show ?thesis by simp
    qed
  qed
qed

lemma search_content_empty_target:
  "search_content [] content occs = Some result \<Longrightarrow>
     concat (map element_runs content) = [] \<and> result = occs"
proof (induction content arbitrary: occs)
  case Nil
  then show ?case by simp
next
  case (Cons element content)
  show ?case
  proof (cases "paragraph element")
    case None
    with Cons show ?thesis by (simp add: element_runs_def)
  next
    case (Some elems)
    with Cons.prems obtain mid where
      m: "search_elems [] elems occs = Some mid"
      and r: "search_content [] content mid = Some result"
      by (auto split: option.splits)
    from search_elems_empty_target [OF m] Cons.IH [OF r] Some
    show ?thesis by (simp add: element_runs_def)
  qed
qed

lemma find_occurrences_Some:
  assumes "find_occurrences doc target = Some occs"
  shows "occs = document_occurrences doc target"
proof (cases "target = []")
  case False
  with assms show ?thesis by (simp add: find_occurrences_closed)
next
  case True
  show ?thesis
  proof (cases "body_content doc")
    case None
    with assms show ?thesis
      by (simp add: find_occurrences_def document_occurrences_def text_runs_def)
  next
    case (Some content)
    with assms True have "search_content [] content [] = Some occs"
      by (simp add: find_occurrences_def)
    from search_content_empty_target [OF this] Some show ?thesis
      by (simp add: document_occurrences_def text_runs_def)
  qed
qed

lemma format_all_exact:
  "format_all doc formatting requests = Some out \<Longrightarrow>
     out = requests @ concat (map (\<lambda>format. concat (map (occurrence_requests format)
                                 (document_occurrences doc (text format)))) formatting)"
proof (induction formatting arbitrary: requests)
  case Nil
  then show ?case by simp
next
  case (Cons format formatting)
  from Cons.prems obtain occs where
    occs: "find_occurrences doc (text format) = Some occs"
    and rest: "format_all doc formatting (apply_occurrences format occs requests) = Some out"
    by (auto split: option.splits)
  from find_occurrences_Some [OF occs] Cons.IH [OF rest]
  show ?case by (simp add: apply_occurrences_concat)
qed

lemma text_style_request:
  "UpdateTextStyle s e style fmask \<in> set (occurrence_requests format occ) \<Longrightarrow>
     style = TextStyle (bold format) (italic format) (underline format) \<and>
     fmask = join '','' (style_fields format) \<and> style_fields format \<noteq> [] \<and>
     s = fst occ \<and> e = snd occ"
  by (auto simp: occurrence_requests_def Let_def split: option.splits if_splits)

lemma split_style_fields:
  "style_fields format \<noteq> [] \<Longrightarrow>
     split CHR '','' (join '','' (style_fields format)) = style_fields format"
  by (cases "bold format"; cases "italic format"; cases "underline format")
     (simp_all add: style_fields_def)

lemma style_fields_members:
  "(''bold'' \<in> set (style_fields format) \<longleftrightarrow> bold format \<noteq> None) \<and>
   (''italic'' \<in> set (style_fields format) \<longleftrightarrow> italic format \<noteq> None) \<and>
   (''underline'' \<in> set (style_fields format) \<longleftrightarrow> underline format \<noteq> None) \<and>
   set (style_fields format) \<subseteq> {''bold'', ''italic'', ''underline''}"
  by (auto simp: style_fields_def)

lemma document_occurrences_length:
  "(s, e) \<in> set (document_occurrences doc target) \<Longrightarrow> e = s + int (length target)"
  by (auto simp: document_occurrences_def run_occurrences_def)

subsection \<open>The example table\<close>

lemma example_lines:
  "table_lines ''| A | B |\<newline>|---|---|\<newline>| 1 | 2 |'' =
     [''| A | B |'', ''|---|---|'', ''| 1 | 2 |'']"
  by (simp add: table_lines_def trim_def is_space_def)

lemma example_rows:
  "parse_rows [''| A | B |'', ''|---|---|'', ''| 1 | 2 |''] [] = [[''A'', ''B''], [''1'', ''2'']]"
  by (simp add: parse_cells_def trim_def is_space_def sep_class_def)

lemma example_cell_requests:
  "cell_requests start [[''A'', ''B''], [''1'', ''2'']] =
     [InsertText (start + 4 + 0 * 5 + 0 * 2) ''A'', InsertText (start + 4 + 0 * 5 + 1 * 2) ''B'',
      InsertText (start + 4 + 1 * 5 + 0 * 2) ''1'', InsertText (start + 4 + 1 * 5 + 1 * 2) ''2'']"
  by (simp add: cell_requests_def row_cell_requests_def upt_rec)

lemma text_runs_nonneg: "run \<in> set (text_runs doc) \<Longrightarrow> 0 \<le> snd run"
  by (auto simp: text_runs_def element_runs_def split: option.splits dest: elem_runs_nonneg)

lemma hello_runs: "text_runs (runs_doc [(1, ''Hello'')]) = [(''Hello'', 1)]"
  by (simp add: text_runs_def runs_doc_def element_runs_def elem_runs_def elem_start_def)

section \<open>The markdown table parser\<close>

text \<open>
  C1, as the code has it. A line made only of bars, dashes, colons and white space that
  has a bar after its first character is matched by the separator pattern and skipped by
  the loop, so it adds no row. When every line of the trimmed table text is such a
  separator line, a row line (a non-blank cell, and no bar after the first character
  that is reached through separator characters only) or blank, the parser returns the
  cells of the row lines in order: exactly as many rows as there are row lines.
\<close>

theorem parse_table_rows:
  "(separator_line l \<longrightarrow> is_separator l \<and> parse_rows (l # ls) rows = parse_rows ls rows) \<and>
   ((\<forall>l \<in> set (table_lines t). separator_line l \<or> row_line l \<or> blank_line l) \<longrightarrow>
      parse_table t = map parse_cells (filter row_line (table_lines t)) \<and>
      length (parse_table t) = length (filter row_line (table_lines t)) \<and>
      length (table_lines t) =
        length (filter row_line (table_lines t)) + length (filter separator_line (table_lines t))
        + length (filter blank_line (table_lines t)))"
proof (intro conjI impI)
  assume "separator_line l"
  then show "is_separator l" by (rule separator_line_is_separator)
  then show "parse_rows (l # ls) rows = parse_rows ls rows" by simp
next
  assume a: "\<forall>l \<in> set (table_lines t). separator_line l \<or> row_line l \<or> blank_line l"
  have "filter (\<lambda>l. \<not> is_separator l \<and> parse_cells l \<noteq> []) (table_lines t)
        = filter row_line (table_lines t)"
  proof (rule filter_cong [OF refl])
    fix l assume "l \<in> set (table_lines t)"
    with a have "separator_line l \<or> row_line l \<or> blank_line l" by blast
    then show "(\<not> is_separator l \<and> parse_cells l \<noteq> []) = row_line l"
      using separator_line_is_separator row_line_not_separator blank_line_no_row
      by (auto simp: row_line_def)
  qed
  then show eq: "parse_table t = map parse_cells (filter row_line (table_lines t))"
    by (simp add: parse_table_def parse_rows_filter)
  then show "length (parse_table t) = length (filter row_line (table_lines t))"
    by simp
  have disj: "\<not> (row_line x \<and> separator_line x) \<and> \<not> (row_line x \<and> blank_line x)
      \<and> \<not> (separator_line x \<and> blank_line x)" for x
    using separator_line_is_separator [of x] row_line_not_separator [of x]
      blank_line_no_row [of x] by blast
  show "length (table_lines t) =
        length (filter row_line (table_lines t)) + length (filter separator_line (table_lines t))
        + length (filter blank_line (table_lines t))"
    using a by (intro three_way_count) (auto simp: disj)
qed

text \<open>
  The theorem at the specification's example table: the middle line is a separator line,
  the other two are row lines, and two rows come back.
\<close>

theorem parse_table_rows_witness:
  "separator_line ''|---|---|'' \<and> is_separator ''|---|---|'' \<and>
   list_all (\<lambda>l. separator_line l \<or> row_line l \<or> blank_line l) (table_lines example_table) \<and>
   parse_table example_table = [[''A'', ''B''], [''1'', ''2'']] \<and>
   length (parse_table example_table) = 2"
proof -
  have lines: "table_lines example_table = [''| A | B |'', ''|---|---|'', ''| 1 | 2 |'']"
    by (simp add: example_table_def table_lines_def trim_def is_space_def)
  have sep: "separator_line ''|---|---|''"
    by (simp add: separator_line_def separator_chars_only_def sep_class_def)
  have r1: "row_line ''| A | B |''" and r2: "row_line ''| 1 | 2 |''"
    by (simp_all add: row_line_def parse_cells_def trim_def is_space_def sep_class_def)
  have nr: "\<not> row_line ''|---|---|''"
    by (simp add: row_line_def parse_cells_def trim_def is_space_def sep_class_def)
  have cells: "parse_cells ''| A | B |'' = [''A'', ''B'']" "parse_cells ''| 1 | 2 |'' = [''1'', ''2'']"
    by (simp_all add: parse_cells_def trim_def is_space_def)
  from parse_table_rows [of "''|---|---|''" "[]" "[]" example_table] sep r1 r2 nr cells
  show ?thesis by (simp add: lines)
qed

text \<open>
  C1 as written fails in both directions. The line \<open>---\<close> consists of separator
  characters only, is not skipped and comes back as the row \<open>[---]\<close>: three rows for two
  table rows and one such line. The line \<open>| | 2 |\<close> holds the cell \<open>2\<close> and is skipped
  as a separator: one row for two table rows and one separator.
\<close>

theorem parse_table_counterexample:
  "separator_chars_only ''---'' \<and>
   parse_table ''| A |\<newline>---\<newline>| 1 |'' = [[''A''], [''---''], [''1'']] \<and>
   \<not> separator_chars_only ''| | 2 |'' \<and> is_separator ''| | 2 |'' \<and>
   parse_table ''| A | B |\<newline>|---|---|\<newline>| | 2 |'' = [[''A'', ''B'']]"
  by (simp add: separator_chars_only_def sep_class_def is_space_def parse_table_def
      table_lines_def trim_def parse_cells_def)

section \<open>The occurrence search\<close>

text \<open>
  C2. A pass of the loop at a match \<open>index\<close> records the match and resumes the search
  at \<open>index + 1\<close>, one position past the start of the match and not past its end. So for
  every non-empty target the loop over a run returns the range of every position of the
  run at which the target stands, in order, overlapping matches included, and the search
  over a document returns the ranges of all its runs. In the span \<open>ababab\<close> the target
  \<open>aba\<close> stands at the positions 0 and 2 and nowhere else, and the loop returns exactly
  the two overlapping matches at offsets 0 and 2 from the start of the span.
\<close>

theorem occurrence_search_overlapping:
  "(index \<noteq> - 1 \<longrightarrow>
      occurrence_loop txt target start index occs =
        occurrence_loop txt target start (indexOf txt target (index + 1))
          (occs @ [(start + index, start + index + int (length target))])) \<and>
   (target \<noteq> [] \<longrightarrow>
      occurrence_loop txt target start (indexOf txt target 0) [] =
        Some (map (\<lambda>i. (start + int i, start + int i + int (length target)))
                  (filter (\<lambda>i. prefix target (drop i txt)) [0..<length txt])) \<and>
      find_occurrences doc target = Some (document_occurrences doc target)) \<and>
   filter (\<lambda>i. prefix ''aba'' (drop i ''ababab'')) [0..<length ''ababab''] = [0, 2] \<and>
   occurrence_loop ''ababab'' ''aba'' start (indexOf ''ababab'' ''aba'' 0) [] =
     Some [(start + 0, start + 0 + 3), (start + 2, start + 2 + 3)]"
proof (intro conjI impI)
  assume "index \<noteq> - 1"
  then show "occurrence_loop txt target start index occs =
        occurrence_loop txt target start (indexOf txt target (index + 1))
          (occs @ [(start + index, start + index + int (length target))])"
    by (subst occurrence_loop.simps) simp
next
  assume ne: "target \<noteq> []"
  from occurrence_loop_closed [OF ne, of 0 "txt" start "[]"]
  show "occurrence_loop txt target start (indexOf txt target 0) [] =
        Some (map (\<lambda>i. (start + int i, start + int i + int (length target)))
                  (filter (\<lambda>i. prefix target (drop i txt)) [0..<length txt]))"
    by simp
  from ne show "find_occurrences doc target = Some (document_occurrences doc target)"
    by (rule find_occurrences_closed)
next
  show "filter (\<lambda>i. prefix ''aba'' (drop i ''ababab'')) [0..<length ''ababab''] = [0, 2]"
    by (simp add: upt_rec)
next
  show "occurrence_loop ''ababab'' ''aba'' start (indexOf ''ababab'' ''aba'' 0) [] =
     Some [(start + 0, start + 0 + 3), (start + 2, start + 2 + 3)]"
    by (simp add: indexOf_def occurrence_loop.simps)
qed

text \<open>
  The theorem at a match at index 2 of \<open>ababab\<close>, at the span \<open>aaa\<close> with the target
  \<open>aa\<close> (matches at 0 and 1), and at a document whose one run \<open>ababab\<close> starts at
  offset 1.
\<close>

theorem occurrence_search_overlapping_witness:
  "occurrence_loop ''ababab'' ''aba'' 1 2 [(1, 4)] =
     occurrence_loop ''ababab'' ''aba'' 1 (indexOf ''ababab'' ''aba'' (2 + 1)) ([(1, 4)] @ [(3, 6)]) \<and>
   occurrence_loop ''aaa'' ''aa'' 0 (indexOf ''aaa'' ''aa'' 0) [] = Some [(0, 2), (1, 3)] \<and>
   find_occurrences (runs_doc [(1, ''ababab'')]) ''aba'' = Some [(1, 4), (3, 6)]"
proof -
  have d: "document_occurrences (runs_doc [(1, ''ababab'')]) ''aba'' = [(1, 4), (3, 6)]"
    by (simp add: document_occurrences_def text_runs_def runs_doc_def element_runs_def
        elem_runs_def elem_start_def run_occurrences_def match_positions_def upt_rec)
  have f: "filter (\<lambda>i. prefix ''aa'' (drop i ''aaa'')) [0..<length ''aaa''] = [0, 1]"
    by (simp add: upt_rec)
  from occurrence_search_overlapping [of 2 "''ababab''" "''aba''" 1 "[(1, 4)]"]
  have a: "occurrence_loop ''ababab'' ''aba'' 1 2 [(1, 4)] =
     occurrence_loop ''ababab'' ''aba'' 1 (indexOf ''ababab'' ''aba'' (2 + 1)) ([(1, 4)] @ [(3, 6)])"
    by simp
  from occurrence_search_overlapping [of 0 "''aaa''" "''aa''" 0 "[]"] f
  have b: "occurrence_loop ''aaa'' ''aa'' 0 (indexOf ''aaa'' ''aa'' 0) [] = Some [(0, 2), (1, 3)]"
    by simp
  from occurrence_search_overlapping [of 0 "''ababab''" "''aba''" 0 "[]" "runs_doc [(1, ''ababab'')]"] d
  have c: "find_occurrences (runs_doc [(1, ''ababab'')]) ''aba'' = Some [(1, 4), (3, 6)]"
    by simp
  from a b c show ?thesis by blast
qed

section \<open>ConvertToTable on the example table\<close>

text \<open>
  C3, as the code has it. The grid of the example table is \<open>[[A, B], [1, 2]]\<close>. Let
  the client be set up, \<open>get\<close> answer with the document, \<open>(txt, s)\<close> be the first
  text run that contains the first line \<open>| A | B |\<close>, \<open>tableStart\<close> the offset of
  that line, and let the service accept the first batch. The first batch is one
  \<open>insertTable\<close> of 2 by 2 at \<open>tableStart\<close>, preceded by exactly one
  \<open>deleteContentRange\<close> over \<open>[tableStart, tableEnd)\<close> when the same run also
  contains the last line \<open>| 1 | 2 |\<close> and the end \<open>tableEnd\<close> of its first occurrence
  there lies after \<open>tableStart\<close>; it is the \<open>insertTable\<close> alone when the run does
  not contain the last line. The second batch is exactly four \<open>insertText\<close> requests,
  one per cell, at \<open>tableStart + 4 + r * 5 + c * 2\<close>.
\<close>

theorem ConvertToTable_example:
  assumes "docsClient cl = Some docs"
    and "documents_get docs documentId = Inr doc"
    and "first_run_with ''| A | B |'' (text_runs doc) = Some (txt, s)"
    and "tableStart = s + indexOf txt ''| A | B |'' 0"
    and "tableEnd = (if sublist ''| 1 | 2 |'' txt
                     then s + indexOf txt ''| 1 | 2 |'' 0 + 9 else - 1)"
    and "firstBatch = (if tableEnd > tableStart
                       then [DeleteContentRange tableStart tableEnd] else [])
                      @ [InsertTable 2 2 tableStart]"
    and "documents_batchUpdate docs documentId firstBatch = None"
  shows "parse_table ''| A | B |\<newline>|---|---|\<newline>| 1 | 2 |'' = [[''A'', ''B''], [''1'', ''2'']] \<and>
         snd (ConvertToTable cl documentId ''| A | B |\<newline>|---|---|\<newline>| 1 | 2 |'') =
           [DocumentsGet documentId,
            DocumentsBatchUpdate documentId firstBatch,
            DocumentsBatchUpdate documentId
              [InsertText (tableStart + 4 + 0 * 5 + 0 * 2) ''A'',
               InsertText (tableStart + 4 + 0 * 5 + 1 * 2) ''B'',
               InsertText (tableStart + 4 + 1 * 5 + 0 * 2) ''1'',
               InsertText (tableStart + 4 + 1 * 5 + 1 * 2) ''2'']] \<and>
         (sublist ''| 1 | 2 |'' txt \<and> tableEnd > tableStart \<longrightarrow>
            firstBatch = [DeleteContentRange tableStart tableEnd, InsertTable 2 2 tableStart]) \<and>
         (\<not> sublist ''| 1 | 2 |'' txt \<longrightarrow> firstBatch = [InsertTable 2 2 tableStart])"
proof -
  let ?lines = "[''| A | B |'', ''|---|---|'', ''| 1 | 2 |'']"
  have loc: "locate_table doc ?lines = (tableStart, tableEnd)"
    using assms(3,4,5) by (simp add: locate_table_first located_bounds_def)
  have nonneg: "0 \<le> tableStart"
  proof -
    have "sublist ''| A | B |'' txt" "(txt, s) \<in> set (text_runs doc)"
      using first_run_with_Some [OF assms(3)] by auto
    then have "0 \<le> indexOf txt ''| A | B |'' 0" "0 \<le> s"
      using indexOf_found_nonneg [of "txt" "''| A | B |''"] text_runs_nonneg [of "(txt, s)" doc]
      by (auto simp: indexOf_not_found_iff)
    with assms(4) show ?thesis by simp
  qed
  then have start: "tableStart \<noteq> - 1" by simp
  have reqs: "table_requests [[''A'', ''B''], [''1'', ''2'']] tableStart tableEnd = firstBatch"
    using assms(6) by (simp add: table_requests_def)
  have "snd (ConvertToTable cl documentId ''| A | B |\<newline>|---|---|\<newline>| 1 | 2 |'') =
           [DocumentsGet documentId,
            DocumentsBatchUpdate documentId firstBatch,
            DocumentsBatchUpdate documentId
              (cell_requests tableStart [[''A'', ''B''], [''1'', ''2'']])]"
    unfolding ConvertToTable_def Let_def example_lines example_rows
    apply (simp only: assms(1) assms(2) option.case sum.case)
    apply (simp only: loc fst_conv snd_conv reqs assms(7) option.case)
    using start
    apply (simp add: example_cell_requests caught_def split: option.splits)
    done
  moreover have "parse_table ''| A | B |\<newline>|---|---|\<newline>| 1 | 2 |'' = [[''A'', ''B''], [''1'', ''2'']]"
    unfolding parse_table_def example_lines example_rows ..
  moreover have "sublist ''| 1 | 2 |'' txt \<and> tableEnd > tableStart \<longrightarrow>
      firstBatch = [DeleteContentRange tableStart tableEnd, InsertTable 2 2 tableStart]"
    using assms(6) by simp
  moreover have "\<not> sublist ''| 1 | 2 |'' txt \<longrightarrow> firstBatch = [InsertTable 2 2 tableStart]"
    using assms(5,6) nonneg by simp
  ultimately show ?thesis
    by (simp only: example_cell_requests simp_thms)
qed

text \<open>
  The theorem for a document whose one text run, at offset 1, is the table text followed
  by a newline: the table starts at 1 and ends at 30, and the first batch has the delete.
\<close>

theorem ConvertToTable_example_witness:
  "snd (ConvertToTable (stub_clients (runs_doc [(1, ''| A | B |\<newline>|---|---|\<newline>| 1 | 2 |\<newline>'')]))
         ''doc'' ''| A | B |\<newline>|---|---|\<newline>| 1 | 2 |'') =
     [DocumentsGet ''doc'',
      DocumentsBatchUpdate ''doc'' [DeleteContentRange 1 30, InsertTable 2 2 1],
      DocumentsBatchUpdate ''doc''
        [InsertText 5 ''A'', InsertText 7 ''B'', InsertText 10 ''1'', InsertText 12 ''2'']]"
proof -
  let ?txt = "''| A | B |\<newline>|---|---|\<newline>| 1 | 2 |\<newline>''"
  let ?doc = "runs_doc [(1, ?txt)]"
  have h1: "docsClient (stub_clients ?doc) = Some (stub_docs ?doc)"
    by (simp add: stub_clients_def)
  have h2: "documents_get (stub_docs ?doc) ''doc'' = Inr ?doc"
    by (simp add: stub_docs_def)
  have h3: "first_run_with ''| A | B |'' (text_runs ?doc) = Some (?txt, 1)"
    by (simp add: first_run_with_def text_runs_def runs_doc_def element_runs_def elem_runs_def
        elem_start_def sublist_code)
  have h4: "(1::int) = 1 + indexOf ?txt ''| A | B |'' 0"
    by (simp add: indexOf_def)
  have h5: "(30::int) = (if sublist ''| 1 | 2 |'' ?txt
                         then 1 + indexOf ?txt ''| 1 | 2 |'' 0 + 9 else - 1)"
    by (simp add: indexOf_def sublist_code)
  have h6: "[DeleteContentRange 1 30, InsertTable 2 2 1] =
      (if (30::int) > 1 then [DeleteContentRange 1 30] else []) @ [InsertTable 2 2 1]"
    by simp
  have h7: "documents_batchUpdate (stub_docs ?doc) ''doc''
              [DeleteContentRange 1 30, InsertTable 2 2 1] = None"
    by (simp add: stub_docs_def)
  from ConvertToTable_example [OF h1 h2 h3 h4 h5 h6 h7]
  show ?thesis by simp
qed

text \<open>
  C3 as written fails on a document that holds the table with one paragraph, and so one
  text run, per line: the first line is found in the first run, the last line is not in
  that run, and the first batch is the \<open>insertTable\<close> alone, with no delete.
\<close>

theorem ConvertToTable_example_counterexample:
  "snd (ConvertToTable
          (stub_clients (runs_doc [(1, ''| A | B |\<newline>''), (11, ''|---|---|\<newline>''),
                                   (21, ''| 1 | 2 |\<newline>'')]))
          ''doc'' ''| A | B |\<newline>|---|---|\<newline>| 1 | 2 |'') =
     [DocumentsGet ''doc'',
      DocumentsBatchUpdate ''doc'' [InsertTable 2 2 1],
      DocumentsBatchUpdate ''doc''
        [InsertText 5 ''A'', InsertText 7 ''B'', InsertText 10 ''1'', InsertText 12 ''2'']]"
  unfolding ConvertToTable_def Let_def example_lines example_rows
  by (simp add: stub_clients_def stub_docs_def locate_table_def locate_in_element_def
      locate_in_elem_def runs_doc_def elem_start_def indexOf_def example_cell_requests
      table_requests_def)

section \<open>The not-found case\<close>

text \<open>
  C4, as the code has it. With the client set up and \<open>get\<close> answering with the
  document: when the first line of the table text occurs in no text run, ConvertToTable
  returns an error result ("No valid table data found" before any call when the text has
  no rows, else "Could not find table text in document" after the \<open>get\<close>) and
  issues no \<open>batchUpdate\<close>. When the target text of no instruction occurs in any text
  run, FormatDoc issues no \<open>batchUpdate\<close> either, and returns its success message
  "Applied formatting", not an error.
\<close>

theorem not_found_results:
  assumes "docsClient cl = Some docs"
    and "documents_get docs documentId = Inr doc"
  shows "((\<forall>run \<in> set (text_runs doc). \<not> sublist (hd (table_lines tableText)) (fst run)) \<longrightarrow>
            ConvertToTable cl documentId tableText =
              (if parse_table tableText = [] then (ToolResult NoValidTableData True, [])
               else (ToolResult TableTextNotFound True, [DocumentsGet documentId]))) \<and>
         ((\<forall>format \<in> set formatting. \<forall>run \<in> set (text_runs doc).
              \<not> sublist (text format) (fst run)) \<longrightarrow>
            FormatDoc cl documentId formatting =
              Some (ToolResult (AppliedFormatting documentId) False, [DocumentsGet documentId]))"
proof (intro conjI impI)
  assume "\<forall>run \<in> set (text_runs doc). \<not> sublist (hd (table_lines tableText)) (fst run)"
  then have "first_run_with (hd (table_lines tableText)) (text_runs doc) = None"
    by (auto simp: first_run_with_def find_None_iff)
  then have "locate_table doc (table_lines tableText) = (- 1, - 1)"
    by (simp add: locate_table_first)
  then show "ConvertToTable cl documentId tableText =
              (if parse_table tableText = [] then (ToolResult NoValidTableData True, [])
               else (ToolResult TableTextNotFound True, [DocumentsGet documentId]))"
    using assms by (simp add: ConvertToTable_def parse_table_def Let_def)
next
  assume "\<forall>format \<in> set formatting. \<forall>run \<in> set (text_runs doc).
              \<not> sublist (text format) (fst run)"
  then have "format_all doc formatting [] = Some []" by (rule format_all_none)
  then show "FormatDoc cl documentId formatting =
              Some (ToolResult (AppliedFormatting documentId) False, [DocumentsGet documentId])"
    using assms by (simp add: FormatDoc_def)
qed

text \<open>
  The theorem for a document with the one text run \<open>Hello\<close>, the example table and an
  instruction for the text \<open>Intro\<close>.
\<close>

theorem not_found_results_witness:
  "ConvertToTable (stub_clients (runs_doc [(1, ''Hello'')])) ''doc'' example_table =
     (ToolResult TableTextNotFound True, [DocumentsGet ''doc'']) \<and>
   FormatDoc (stub_clients (runs_doc [(1, ''Hello'')])) ''doc''
     [\<lparr>text = ''Intro'', bold = Some True, italic = None, underline = None, heading = None\<rparr>] =
     Some (ToolResult (AppliedFormatting ''doc'') False, [DocumentsGet ''doc''])"
proof -
  let ?doc = "runs_doc [(1, ''Hello'')]"
  have h1: "docsClient (stub_clients ?doc) = Some (stub_docs ?doc)"
    by (simp add: stub_clients_def)
  have h2: "documents_get (stub_docs ?doc) ''doc'' = Inr ?doc"
    by (simp add: stub_docs_def)
  have rows: "parse_table example_table \<noteq> []"
    unfolding parse_table_def example_table_def example_lines example_rows by simp
  from not_found_results [OF h1 h2, of example_table
      "[\<lparr>text = ''Intro'', bold = Some True, italic = None, underline = None, heading = None\<rparr>]"]
    rows
  show ?thesis
    by (simp add: hello_runs [simplified] example_table_def example_lines sublist_code)
qed

text \<open>
  C4 as written fails for FormatDoc: \<open>Intro\<close> does not occur in \<open>Hello\<close>, and the
  call returns the success message with \<open>isError\<close> false.
\<close>

theorem FormatDoc_not_found_counterexample:
  "\<not> sublist ''Intro'' ''Hello'' \<and>
   FormatDoc (stub_clients (runs_doc [(1, ''Hello'')])) ''doc''
     [\<lparr>text = ''Intro'', bold = Some True, italic = None, underline = None, heading = None\<rparr>] =
     Some (ToolResult (AppliedFormatting ''doc'') False, [DocumentsGet ''doc''])"
  by (simp add: sublist_code FormatDoc_def stub_clients_def stub_docs_def runs_doc_def
      find_occurrences_def indexOf_def occurrence_loop.simps)

section \<open>UpdateDoc\<close>

text \<open>
  C5. With the client set up and \<open>get\<close> answering with a document whose last
  structural element ends at \<open>E > 1\<close>: in replace mode UpdateDoc sends one batch, a
  \<open>deleteContentRange\<close> from 1 to \<open>E - 1\<close> followed by an \<open>insertText\<close> of the
  content at 1; in append mode it sends one batch with the single \<open>insertText\<close> at
  \<open>E - 1\<close> of a newline followed by the content, and no delete; an omitted mode is
  append mode.
\<close>

theorem UpdateDoc_requests:
  assumes "docsClient cl = Some docs"
    and "documents_get docs documentId = Inr doc"
    and "body_content doc = Some elements"
    and "elements \<noteq> []"
    and "endIndex (last elements) = Some E"
    and "E > 1"
  shows "snd (UpdateDoc cl documentId content (Some Replace)) =
           [DocumentsGet documentId,
            DocumentsBatchUpdate documentId
              [DeleteContentRange 1 (int E - 1), InsertText 1 content]] \<and>
         snd (UpdateDoc cl documentId content (Some Append)) =
           [DocumentsGet documentId,
            DocumentsBatchUpdate documentId [InsertText (int E - 1) (''\<newline>'' @ content)]] \<and>
         UpdateDoc cl documentId content None = UpdateDoc cl documentId content (Some Append)"
proof -
  have e: "body_endIndex doc = int E"
    using assms by (simp add: body_endIndex_def)
  show ?thesis
    using assms(1,2,6)
    by (simp add: UpdateDoc_def update_requests_def e caught_def Let_def split: option.splits)
qed

text \<open>
  The theorem for a document with the one text run \<open>Hello\<close> at offset 1, which ends
  at 6.
\<close>

theorem UpdateDoc_requests_witness:
  "snd (UpdateDoc (stub_clients (runs_doc [(1, ''Hello'')])) ''doc'' ''New'' (Some Replace)) =
     [DocumentsGet ''doc'',
      DocumentsBatchUpdate ''doc'' [DeleteContentRange 1 5, InsertText 1 ''New'']] \<and>
   snd (UpdateDoc (stub_clients (runs_doc [(1, ''Hello'')])) ''doc'' ''New'' (Some Append)) =
     [DocumentsGet ''doc'',
      DocumentsBatchUpdate ''doc'' [InsertText 5 (''\<newline>'' @ ''New'')]] \<and>
   UpdateDoc (stub_clients (runs_doc [(1, ''Hello'')])) ''doc'' ''New'' None =
     UpdateDoc (stub_clients (runs_doc [(1, ''Hello'')])) ''doc'' ''New'' (Some Append)"
proof -
  let ?doc = "runs_doc [(1, ''Hello'')]"
  have h1: "docsClient (stub_clients ?doc) = Some (stub_docs ?doc)"
    by (simp add: stub_clients_def)
  have h2: "documents_get (stub_docs ?doc) ''doc'' = Inr ?doc"
    by (simp add: stub_docs_def)
  have h3: "body_content ?doc = Some
      [\<lparr>paragraph = Some [\<lparr>startIndex = Some 1, textRun = Some ''Hello''\<rparr>],
        endIndex = Some 6\<rparr>]"
    by (simp add: runs_doc_def)
  have h5: "endIndex (last [\<lparr>paragraph = Some [\<lparr>startIndex = Some 1, textRun = Some ''Hello''\<rparr>],
        endIndex = Some 6\<rparr>]) = Some 6"
    by simp
  from UpdateDoc_requests [OF h1 h2 h3 _ h5, of "''New''"]
  show ?thesis by simp
qed

section \<open>FormatDoc\<close>

text \<open>
  C6. With the client set up and \<open>get\<close> answering with a document in which
  \<open>Intro\<close> occurs exactly once, over the range \<open>[s, e)\<close>: for the single instruction
  with text \<open>Intro\<close> and heading 2, and no bold, italic or underline, FormatDoc sends
  one batch whose only request is an \<open>updateParagraphStyle\<close> with named style type
  \<open>HEADING_2\<close> over that range; there is no \<open>updateTextStyle\<close> request. The range
  is five long.
\<close>

theorem FormatDoc_heading_only:
  assumes "docsClient cl = Some docs"
    and "documents_get docs documentId = Inr doc"
    and "document_occurrences doc ''Intro'' = [(s, e)]"
  shows "map_option snd (FormatDoc cl documentId
           [\<lparr>text = ''Intro'', bold = None, italic = None, underline = None,
             heading = Some 2\<rparr>]) =
         Some [DocumentsGet documentId,
               DocumentsBatchUpdate documentId
                 [UpdateParagraphStyle s e ''HEADING_2'' ''namedStyleType'']] \<and>
         e = s + 5"
proof -
  have occ: "find_occurrences doc ''Intro'' = Some [(s, e)]"
    using find_occurrences_closed [of "''Intro''" doc] assms(3) by simp
  have len: "e = s + 5"
    using document_occurrences_length [of s e doc "''Intro''"] assms(3) by simp
  show ?thesis
    using assms(1,2) occ len
    by (simp add: FormatDoc_def occurrence_requests_def style_fields_def caught_def Let_def
        split: option.splits)
qed

text \<open>
  The theorem for a document with the one text run \<open>Intro to it\<close> at offset 1.
\<close>

theorem FormatDoc_heading_only_witness:
  "document_occurrences (runs_doc [(1, ''Intro to it'')]) ''Intro'' = [(1, 6)] \<and>
   map_option snd (FormatDoc (stub_clients (runs_doc [(1, ''Intro to it'')])) ''doc''
           [\<lparr>text = ''Intro'', bold = None, italic = None, underline = None,
             heading = Some 2\<rparr>]) =
         Some [DocumentsGet ''doc'',
               DocumentsBatchUpdate ''doc''
                 [UpdateParagraphStyle 1 6 ''HEADING_2'' ''namedStyleType'']]"
proof -
  let ?doc = "runs_doc [(1, ''Intro to it'')]"
  have h1: "docsClient (stub_clients ?doc) = Some (stub_docs ?doc)"
    by (simp add: stub_clients_def)
  have h2: "documents_get (stub_docs ?doc) ''doc'' = Inr ?doc"
    by (simp add: stub_docs_def)
  have h3: "document_occurrences ?doc ''Intro'' = [(1, 6)]"
    by (simp add: document_occurrences_def text_runs_def runs_doc_def element_runs_def
        elem_runs_def elem_start_def run_occurrences_def match_positions_def)
  from FormatDoc_heading_only [OF h1 h2 h3] h3 show ?thesis by simp
qed

text \<open>
  C7. With the client set up and \<open>get\<close> answering with the document, the requests
  FormatDoc sends are, for each instruction in order and each located occurrence of its
  text in order, the requests written for that instruction and that occurrence (one
  batch after the \<open>get\<close>, none when there is no request). Every \<open>updateTextStyle\<close>
  request written for an instruction and an occurrence has that occurrence as its range,
  a field mask that, split at the commas, lists \<open>bold\<close>, \<open>italic\<close>, \<open>underline\<close>
  exactly for the fields that instruction sets and lists nothing else, and a text style
  with exactly those fields; there is one such request when the instruction sets a
  field and none otherwise.
\<close>

theorem FormatDoc_field_mask:
  assumes "docsClient cl = Some docs"
    and "documents_get docs documentId = Inr doc"
    and "FormatDoc cl documentId formatting = Some (result, calls)"
  shows "(let requests = concat (map (\<lambda>format. concat (map (occurrence_requests format)
                                   (document_occurrences doc (text format)))) formatting)
          in calls = DocumentsGet documentId #
                     (if requests = [] then [] else [DocumentsBatchUpdate documentId requests])) \<and>
         (\<forall>format occ s e style fmask.
            UpdateTextStyle s e style fmask \<in> set (occurrence_requests format occ) \<longrightarrow>
              (s, e) = occ \<and>
              (''bold'' \<in> set (split CHR '','' fmask) \<longleftrightarrow> bold format \<noteq> None) \<and>
              (''italic'' \<in> set (split CHR '','' fmask) \<longleftrightarrow> italic format \<noteq> None) \<and>
              (''underline'' \<in> set (split CHR '','' fmask) \<longleftrightarrow> underline format \<noteq> None) \<and>
              set (split CHR '','' fmask) \<subseteq> {''bold'', ''italic'', ''underline''} \<and>
              style = TextStyle (bold format) (italic format) (underline format)) \<and>
         (\<forall>format occ.
            length (filter (\<lambda>r. \<exists>s e style fmask. r = UpdateTextStyle s e style fmask)
                      (occurrence_requests format occ)) =
              (if bold format = None \<and> italic format = None \<and> underline format = None
               then 0 else 1))"
proof (intro conjI allI impI)
  let ?requests = "concat (map (\<lambda>format. concat (map (occurrence_requests format)
                                   (document_occurrences doc (text format)))) formatting)"
  from assms obtain out where all: "format_all doc formatting [] = Some out"
    by (auto simp: FormatDoc_def split: option.splits)
  from format_all_exact [OF all] have out: "out = ?requests" by simp
  from assms all have "calls = DocumentsGet documentId #
      (if out = [] then [] else [DocumentsBatchUpdate documentId out])"
    by (auto simp: FormatDoc_def caught_def split: option.splits if_splits)
  then show "let requests = ?requests
          in calls = DocumentsGet documentId #
                     (if requests = [] then [] else [DocumentsBatchUpdate documentId requests])"
    by (simp add: out Let_def)
next
  fix format occ s e style fmask
  assume r: "UpdateTextStyle s e style fmask \<in> set (occurrence_requests format occ)"
  from text_style_request [OF r]
  have st: "style = TextStyle (bold format) (italic format) (underline format)"
    and m: "fmask = join '','' (style_fields format)" and ne: "style_fields format \<noteq> []"
    and rng: "s = fst occ" "e = snd occ"
    by auto
  have sp: "split CHR '','' fmask = style_fields format"
    using m split_style_fields [OF ne] by simp
  from rng show "(s, e) = occ" by simp
  from sp style_fields_members [of format]
  show "''bold'' \<in> set (split CHR '','' fmask) \<longleftrightarrow> bold format \<noteq> None"
    and "''italic'' \<in> set (split CHR '','' fmask) \<longleftrightarrow> italic format \<noteq> None"
    and "''underline'' \<in> set (split CHR '','' fmask) \<longleftrightarrow> underline format \<noteq> None"
    and "set (split CHR '','' fmask) \<subseteq> {''bold'', ''italic'', ''underline''}"
    by simp_all
  from st show "style = TextStyle (bold format) (italic format) (underline format)" .
next
  fix format occ
  show "length (filter (\<lambda>r. \<exists>s e style fmask. r = UpdateTextStyle s e style fmask)
                      (occurrence_requests format occ)) =
              (if bold format = None \<and> italic format = None \<and> underline format = None
               then 0 else 1)"
    by (auto simp: occurrence_requests_def style_fields_def Let_def split: option.splits)
qed

text \<open>
  The theorem for two instructions on one document: the first sets bold only on
  \<open>Intro\<close>, the second sets italic only on \<open>it\<close>. The request over the occurrence of
  \<open>Intro\<close> has the mask \<open>bold\<close>, in which neither \<open>italic\<close> nor \<open>underline\<close>
  appears.
\<close>

theorem FormatDoc_field_mask_witness:
  "FormatDoc (stub_clients (runs_doc [(1, ''Intro to it'')])) ''doc''
     [\<lparr>text = ''Intro'', bold = Some True, italic = None, underline = None, heading = None\<rparr>,
      \<lparr>text = ''it'', bold = None, italic = Some True, underline = None, heading = None\<rparr>] =
     Some (ToolResult (AppliedFormatting ''doc'') False,
           [DocumentsGet ''doc'',
            DocumentsBatchUpdate ''doc''
              [UpdateTextStyle 1 6 (TextStyle (Some True) None None) ''bold'',
               UpdateTextStyle 10 12 (TextStyle None (Some True) None) ''italic'']]) \<and>
   ''bold'' \<in> set (split CHR '','' ''bold'') \<and>
   ''italic'' \<notin> set (split CHR '','' ''bold'') \<and>
   ''underline'' \<notin> set (split CHR '','' ''bold'')"
proof -
  let ?doc = "runs_doc [(1, ''Intro to it'')]"
  let ?a = "\<lparr>text = ''Intro'', bold = Some True, italic = None, underline = None,
             heading = None\<rparr>"
  let ?b = "\<lparr>text = ''it'', bold = None, italic = Some True, underline = None,
             heading = None\<rparr>"
  let ?ra = "UpdateTextStyle 1 6 (TextStyle (Some True) None None) ''bold''"
  let ?rb = "UpdateTextStyle 10 12 (TextStyle None (Some True) None) ''italic''"
  have h1: "docsClient (stub_clients ?doc) = Some (stub_docs ?doc)"
    by (simp add: stub_clients_def)
  have h2: "documents_get (stub_docs ?doc) ''doc'' = Inr ?doc"
    by (simp add: stub_docs_def)
  have occ_a: "find_occurrences ?doc ''Intro'' = Some [(1, 6)]"
    by (simp add: find_occurrences_closed document_occurrences_def text_runs_def runs_doc_def
        element_runs_def elem_runs_def elem_start_def run_occurrences_def match_positions_def
        upt_rec)
  have occ_b: "find_occurrences ?doc ''it'' = Some [(10, 12)]"
    by (simp add: find_occurrences_closed document_occurrences_def text_runs_def runs_doc_def
        element_runs_def elem_runs_def elem_start_def run_occurrences_def match_positions_def
        upt_rec)
  have run: "FormatDoc (stub_clients ?doc) ''doc'' [?a, ?b] =
     Some (ToolResult (AppliedFormatting ''doc'') False,
           [DocumentsGet ''doc'', DocumentsBatchUpdate ''doc'' [?ra, ?rb]])"
    by (simp add: FormatDoc_def stub_clients_def stub_docs_def occ_a [simplified]
        occ_b [simplified] occurrence_requests_def style_fields_def)
  have mem: "?ra \<in> set (occurrence_requests ?a (1, 6))"
    by (simp add: occurrence_requests_def style_fields_def)
  from FormatDoc_field_mask [OF h1 h2 run, THEN conjunct2, THEN conjunct1, rule_format, OF mem]
  have "''bold'' \<in> set (split CHR '','' ''bold'') \<and>
        ''italic'' \<notin> set (split CHR '','' ''bold'') \<and>
        ''underline'' \<notin> set (split CHR '','' ''bold'')"
    by simp
  with run show ?thesis by simp
qed

section \<open>Client handles that were never set\<close>

text \<open>
  C8. When the Docs client handle is not set, CreateDoc, UpdateDoc, FormatDoc and
  ConvertToTable return the error result "Google API not initialized" with \<open>isError\<close>
  set and make no call to the service; so does DeleteDoc when the Drive client handle is
  not set.
\<close>

theorem uninitialized_client_error:
  "(docsClient cl = None \<longrightarrow>
      CreateDoc cl title content = (ToolResult NotInitialized True, []) \<and>
      UpdateDoc cl documentId newContent mode = (ToolResult NotInitialized True, []) \<and>
      FormatDoc cl documentId formatting = Some (ToolResult NotInitialized True, []) \<and>
      ConvertToTable cl documentId tableText = (ToolResult NotInitialized True, [])) \<and>
   (driveClient cl = None \<longrightarrow>
      DeleteDoc cl documentId = (ToolResult NotInitialized True, []))"
  by (simp add: CreateDoc_def UpdateDoc_def FormatDoc_def ConvertToTable_def DeleteDoc_def
      not_initialized_def)

text \<open>
  The theorem for the state in which neither handle is set.
\<close>

theorem uninitialized_client_error_witness:
  "docsClient no_clients = None \<and> driveClient no_clients = None \<and>
   CreateDoc no_clients ''Title'' (Some ''text'') = (ToolResult NotInitialized True, []) \<and>
   UpdateDoc no_clients ''doc'' ''text'' (Some Replace) = (ToolResult NotInitialized True, []) \<and>
   FormatDoc no_clients ''doc''
     [\<lparr>text = ''Intro'', bold = Some True, italic = None, underline = None, heading = None\<rparr>]
     = Some (ToolResult NotInitialized True, []) \<and>
   ConvertToTable no_clients ''doc'' example_table = (ToolResult NotInitialized True, []) \<and>
   DeleteDoc no_clients ''doc'' = (ToolResult NotInitialized True, [])"
  using uninitialized_client_error [of no_clients "''Title''" "Some ''text''" "''doc''" "''text''"
      "Some Replace"
      "[\<lparr>text = ''Intro'', bold = Some True, italic = None, underline = None, heading = None\<rparr>]"
      example_table]
  by (simp add: no_clients_def)

section \<open>formatMarkdownTable\<close>

text \<open>
  C9. \<open>formatMarkdownTable\<close> returns a text without a bar unchanged. For every text,
  its output lines are the input lines in order with fences inserted between them; the
  number of inserted fences is even; reading the output from the top, every input line
  with a bar stands between an opening fence and the closing fence that follows it (and
  every line without a bar stands outside), and the last block is closed. CreateDoc, with
  the client set up, the document created and a non-empty content, sends the one
  \<open>insertText\<close> at 1 of the content passed through \<open>formatMarkdownTable\<close>.
\<close>

theorem formatMarkdownTable_fences:
  "(CHR ''|'' \<notin> set txt \<longrightarrow> formatMarkdownTable txt = txt) \<and>
   (\<exists>out. formatLines (split CHR ''\<newline>'' txt) False [] = map render out \<and>
      formatMarkdownTable txt = join ''\<newline>'' (map render out) \<and>
      input_lines out = split CHR ''\<newline>'' txt \<and>
      even (fences out) \<and> fenced out False) \<and>
   (docsClient cl = Some docs \<and> documents_create docs title = Inr documentId \<and> txt \<noteq> [] \<longrightarrow>
      snd (CreateDoc cl title (Some txt)) =
        [DocumentsCreate title,
         DocumentsBatchUpdate documentId [InsertText 1 (formatMarkdownTable txt)]])"
proof (intro conjI impI)
  assume "CHR ''|'' \<notin> set txt"
  then show "formatMarkdownTable txt = txt" by (rule formatMarkdownTable_no_bar)
next
  let ?out = "tagged_lines (split CHR ''\<newline>'' txt) False"
  have "formatLines (split CHR ''\<newline>'' txt) False [] = map render ?out"
    by (simp add: formatLines_tagged)
  moreover have "formatMarkdownTable txt = join ''\<newline>'' (map render ?out)"
    by (simp add: formatMarkdownTable_def formatLines_tagged)
  moreover have "input_lines ?out = split CHR ''\<newline>'' txt"
    by (rule input_lines_tagged)
  moreover have "even (fences ?out)"
    by (simp add: fences_tagged)
  moreover have "fenced ?out False"
    by (rule fenced_tagged)
  ultimately show "\<exists>out. formatLines (split CHR ''\<newline>'' txt) False [] = map render out \<and>
      formatMarkdownTable txt = join ''\<newline>'' (map render out) \<and>
      input_lines out = split CHR ''\<newline>'' txt \<and>
      even (fences out) \<and> fenced out False"
    by blast
next
  assume "docsClient cl = Some docs \<and> documents_create docs title = Inr documentId \<and> txt \<noteq> []"
  then show "snd (CreateDoc cl title (Some txt)) =
        [DocumentsCreate title,
         DocumentsBatchUpdate documentId [InsertText 1 (formatMarkdownTable txt)]]"
    by (simp add: CreateDoc_def caught_def Let_def split: option.splits)
qed

text \<open>
  The theorem for the text \<open>plain\<close>; and the fences around the one table line of a
  three-line text.
\<close>

theorem formatMarkdownTable_fences_witness:
  "formatMarkdownTable ''plain'' = ''plain'' \<and>
   formatMarkdownTable ''a\<newline>|x|\<newline>b'' =
     join ''\<newline>'' (map render [Line ''a'', Fence, Line ''|x|'', Fence, Line ''b'']) \<and>
   even (fences [Line ''a'', Fence, Line ''|x|'', Fence, Line ''b'']) \<and>
   fenced [Line ''a'', Fence, Line ''|x|'', Fence, Line ''b''] False \<and>
   snd (CreateDoc (stub_clients (runs_doc [])) ''Title'' (Some ''plain'')) =
     [DocumentsCreate ''Title'', DocumentsBatchUpdate ''new'' [InsertText 1 ''plain'']]"
proof -
  let ?cl = "stub_clients (runs_doc [])"
  have h: "docsClient ?cl = Some (stub_docs (runs_doc [])) \<and>
           documents_create (stub_docs (runs_doc [])) ''Title'' = Inr ''new'' \<and> ''plain'' \<noteq> []"
    by (simp add: stub_clients_def stub_docs_def)
  have nb: "CHR ''|'' \<notin> set ''plain''" by simp
  from formatMarkdownTable_fences [of "''plain''" ?cl "stub_docs (runs_doc [])" "''Title''" "''new''"]
    h nb
  have a: "formatMarkdownTable ''plain'' = ''plain''"
    and b: "snd (CreateDoc ?cl ''Title'' (Some ''plain'')) =
     [DocumentsCreate ''Title'',
      DocumentsBatchUpdate ''new'' [InsertText 1 (formatMarkdownTable ''plain'')]]"
    by blast+
  have c: "formatMarkdownTable ''a\<newline>|x|\<newline>b'' =
     join ''\<newline>'' (map render [Line ''a'', Fence, Line ''|x|'', Fence, Line ''b''])"
    by (simp add: formatMarkdownTable_def)
  show ?thesis using a b c by simp
qed

section \<open>ConvertToTable without the last line\<close>



end
